theory Spec2Isabelle
  imports Main
begin

section \<open>Data model of the chat back end\<close>

text \<open>
  User ids are the strings the clients send. Ids generated by the database
  (\<^verbatim>\<open>@PrimaryGeneratedColumn('uuid')\<close>) are modelled by a counter of the store: every
  generated id is fresh. Timestamps (\<^verbatim>\<open>@CreateDateColumn\<close>, \<^verbatim>\<open>new Date()\<close>) are
  natural numbers handed to the operation that stores them. The id of a message entity is
  optional: \<^verbatim>\<open>Repository.remove\<close> hands the entity back without its id.
\<close>

type_synonym user_id = string
type_synonym uuid = nat
type_synonym timestamp = nat

record chat =
  chat_id :: uuid
  chat_name :: string
  participantIds :: "user_id list"
  isActive :: bool

record message =
  msg_id :: "uuid option"
  content :: string
  senderId :: user_id
  chatId :: uuid
  createdAt :: timestamp
  isEdited :: bool
  editedAt :: "timestamp option"

record message_read =
  messageId :: uuid
  userId :: user_id
  readAt :: timestamp

text \<open>The payloads handed to \<^verbatim>\<open>pubSub.publish\<close>, one constructor per topic.\<close>

datatype event =
    MessageAdded message
  | ChatMessageNotification uuid message user_id
  | MessageUpdateForChatList uuid message user_id
  | MessageUpdated message
  | MessageDeleted "uuid option" uuid
  | MessageReadUpdated uuid user_id timestamp
  | UnreadCountUpdated uuid user_id int
  | ChatAdded chat
  | ChatUpdated chat

fun topic :: "event \<Rightarrow> string" where
  "topic (MessageAdded _) = ''messageAdded''"
| "topic (ChatMessageNotification _ _ _) = ''chatMessageNotification''"
| "topic (MessageUpdateForChatList _ _ _) = ''messageUpdateForChatList''"
| "topic (MessageUpdated _) = ''messageUpdated''"
| "topic (MessageDeleted _ _) = ''messageDeleted''"
| "topic (MessageReadUpdated _ _ _) = ''messageReadUpdated''"
| "topic (UnreadCountUpdated _ _ _) = ''unreadCountUpdated''"
| "topic (ChatAdded _) = ''chatAdded''"
| "topic (ChatUpdated _) = ''chatUpdated''"

datatype error = NotFound | Forbidden | StoreUnavailable | QueryFailed

text \<open>
  The state the services share: the four tables, the log of everything published on the
  broker (oldest first), the id generator, and the availability of the store.
  \<open>failAfter = None\<close>: every write succeeds; \<open>failAfter = Some n\<close>: the next \<open>n\<close>
  writes succeed and the one after throws (\<open>StoreUnavailable\<close>); a statement the
  database rejects for a constraint throws \<open>QueryFailed\<close>. The unread counters are keyed by
  \<open>(chatId, userId)\<close>, the unique key of the table; the column is an INTEGER and the
  TypeScript field a \<^verbatim>\<open>number\<close>, modelled as an unbounded \<open>int\<close>.
\<close>

record sys =
  chats :: "uuid \<rightharpoonup> chat"
  messages :: "uuid \<rightharpoonup> message"
  messageReads :: "message_read list"
  unreadCounts :: "(uuid \<times> user_id) \<rightharpoonup> int"
  published :: "event list"
  nextId :: uuid
  failAfter :: "nat option"

definition empty_sys :: sys where
  "empty_sys = \<lparr>chats = Map.empty, messages = Map.empty, messageReads = [],
     unreadCounts = Map.empty, published = [], nextId = 0, failAfter = None\<rparr>"

text \<open>One write to the store: \<open>None\<close> when the store throws.\<close>

definition store_write :: "sys \<Rightarrow> sys option" where
  "store_write s =
     (case failAfter s of
        None \<Rightarrow> Some s
      | Some 0 \<Rightarrow> None
      | Some (Suc n) \<Rightarrow> Some (s\<lparr>failAfter := Some n\<rparr>))"

definition publish :: "event \<Rightarrow> sys \<Rightarrow> sys" where
  "publish e s = s\<lparr>published := published s @ [e]\<rparr>"

section \<open>UnreadCountService\<close>

text \<open>
  \<^verbatim>\<open>incrementUnreadCount\<close> and \<^verbatim>\<open>resetUnreadCount\<close> are each a \<^verbatim>\<open>findOne\<close>, a
  computation on the entity found, and a \<^verbatim>\<open>save\<close> followed by a publish of the saved
  value. The three parts are separate definitions, composed as the source composes them.
\<close>

definition findOne_unread :: "sys \<Rightarrow> uuid \<Rightarrow> user_id \<Rightarrow> int option" where
  "findOne_unread s cid uid = unreadCounts s (cid, uid)"

definition incremented :: "int option \<Rightarrow> int" where
  "incremented found = (case found of None \<Rightarrow> 1 | Some n \<Rightarrow> n + 1)"

definition zeroed :: "int option \<Rightarrow> int" where
  "zeroed found = (case found of None \<Rightarrow> 0 | Some n \<Rightarrow> 0)"

text \<open>
  \<^verbatim>\<open>save\<close> of the entity and the publish after it. An entity that was found carries
  its id and is written by an UPDATE; an entity made by \<^verbatim>\<open>create\<close> (nothing was found)
  is written by an INSERT, which the database rejects when a row of the key exists by
  then (\<^verbatim>\<open>@Unique(['chatId', 'userId'])\<close>); the operation then throws before it publishes.
\<close>

definition save_unread ::
  "sys \<Rightarrow> uuid \<Rightarrow> user_id \<Rightarrow> int option \<Rightarrow> int \<Rightarrow> (error + int) \<times> sys" where
  "save_unread s cid uid found v =
     (case store_write s of
        None \<Rightarrow> (Inl StoreUnavailable, s)
      | Some s1 \<Rightarrow>
          if found = None \<and> unreadCounts s1 (cid, uid) \<noteq> None then (Inl QueryFailed, s)
          else (Inr v, publish (UnreadCountUpdated cid uid v)
                         (s1\<lparr>unreadCounts := (unreadCounts s1)((cid, uid) \<mapsto> v)\<rparr>)))"

definition incrementUnreadCount :: "sys \<Rightarrow> uuid \<Rightarrow> user_id \<Rightarrow> (error + int) \<times> sys" where
  "incrementUnreadCount s cid uid =
     (let found = findOne_unread s cid uid in save_unread s cid uid found (incremented found))"

definition resetUnreadCount :: "sys \<Rightarrow> uuid \<Rightarrow> user_id \<Rightarrow> (error + int) \<times> sys" where
  "resetUnreadCount s cid uid =
     (let found = findOne_unread s cid uid in save_unread s cid uid found (zeroed found))"

text \<open>\<^verbatim>\<open>unreadCount?.unreadCount || 0\<close>: a missing row and a stored 0 both read as 0.\<close>

definition getUnreadCount :: "sys \<Rightarrow> uuid \<Rightarrow> user_id \<Rightarrow> int" where
  "getUnreadCount s cid uid =
     (case unreadCounts s (cid, uid) of None \<Rightarrow> 0 | Some n \<Rightarrow> if n = 0 then 0 else n)"

text \<open>A sequence of counter operations, run one after the other.\<close>

datatype counter_op = Increment uuid user_id | ResetToZero uuid user_id

fun apply_counter_op :: "sys \<Rightarrow> counter_op \<Rightarrow> sys" where
  "apply_counter_op s (Increment cid uid) = snd (incrementUnreadCount s cid uid)"
| "apply_counter_op s (ResetToZero cid uid) = snd (resetUnreadCount s cid uid)"

definition run_counter_ops :: "sys \<Rightarrow> counter_op list \<Rightarrow> sys" where
  "run_counter_ops s ops = foldl apply_counter_op s ops"

text \<open>
  The specification's count: the increments of the key performed strictly after the last
  reset of the key, or all of them when it was never reset.
\<close>

definition increments_since_reset :: "uuid \<Rightarrow> user_id \<Rightarrow> counter_op list \<Rightarrow> nat" where
  "increments_since_reset cid uid ops =
     length (filter (\<lambda>x. x = Increment cid uid)
               (takeWhile (\<lambda>x. x \<noteq> ResetToZero cid uid) (rev ops)))"

definition counters_nonneg :: "sys \<Rightarrow> bool" where
  "counters_nonneg s = (\<forall>k v. unreadCounts s k = Some v \<longrightarrow> 0 \<le> v)"

text \<open>Some operation of the sequence addresses the key.\<close>

definition touched :: "uuid \<Rightarrow> user_id \<Rightarrow> counter_op list \<Rightarrow> bool" where
  "touched cid uid ops = (Increment cid uid \<in> set ops \<or> ResetToZero cid uid \<in> set ops)"

text \<open>
  The client's badge state (\<^verbatim>\<open>useUnreadCounts\<close>): a map from chat id to count; an
  \<^verbatim>\<open>unreadCountUpdated\<close> event overwrites the entry of its chat, and a missing entry
  reads as 0. The Reader forwards the event to the subscriptions of the event's user.
\<close>

definition unreadCountUpdated_filter :: "event \<Rightarrow> user_id \<Rightarrow> bool" where
  "unreadCountUpdated_filter e uid =
     (case e of UnreadCountUpdated c u v \<Rightarrow> u = uid | _ \<Rightarrow> False)"

definition client_onData :: "(uuid \<rightharpoonup> int) \<Rightarrow> event \<Rightarrow> (uuid \<rightharpoonup> int)" where
  "client_onData view e =
     (case e of UnreadCountUpdated c u v \<Rightarrow> view(c \<mapsto> v) | _ \<Rightarrow> view)"

definition client_getUnreadCount :: "(uuid \<rightharpoonup> int) \<Rightarrow> uuid \<Rightarrow> int" where
  "client_getUnreadCount view cid =
     (case view cid of None \<Rightarrow> 0 | Some n \<Rightarrow> if n = 0 then 0 else n)"

section \<open>ChatService\<close>

record create_chat_input =
  in_name :: string
  in_participantIds :: "user_id list"

definition findOne_chat :: "sys \<Rightarrow> uuid \<Rightarrow> error + chat" where
  "findOne_chat s cid =
     (case chats s cid of
        None \<Rightarrow> Inl NotFound
      | Some c \<Rightarrow> if isActive c then Inr c else Inl NotFound)"

definition isParticipant :: "sys \<Rightarrow> uuid \<Rightarrow> user_id \<Rightarrow> error + bool" where
  "isParticipant s cid uid =
     (case findOne_chat s cid of
        Inl e \<Rightarrow> Inl e
      | Inr c \<Rightarrow> Inr (uid \<in> set (participantIds c)))"

definition save_chat :: "sys \<Rightarrow> chat \<Rightarrow> (error + chat) \<times> sys" where
  "save_chat s c =
     (case store_write s of
        None \<Rightarrow> (Inl StoreUnavailable, s)
      | Some s1 \<Rightarrow> (Inr c, s1\<lparr>chats := (chats s1)(chat_id c \<mapsto> c)\<rparr>))"

definition create_chat :: "sys \<Rightarrow> create_chat_input \<Rightarrow> (error + chat) \<times> sys" where
  "create_chat s inp =
     (let c = \<lparr>chat_id = nextId s, chat_name = in_name inp,
                participantIds = in_participantIds inp, isActive = True\<rparr>
      in case save_chat s c of
           (Inl e, s1) \<Rightarrow> (Inl e, s1)
         | (Inr savedChat, s1) \<Rightarrow>
             (Inr savedChat, publish (ChatAdded savedChat) (s1\<lparr>nextId := Suc (nextId s1)\<rparr>)))"

text \<open>
  The \<^verbatim>\<open>createChat\<close> mutation hands its input to the service as it is. The decorators
  of \<^verbatim>\<open>CreateChatInput\<close> (\<^verbatim>\<open>@ArrayMinSize(1)\<close>, \<^verbatim>\<open>@IsNotEmpty()\<close>) are not run by the
  resolver or the service, so an empty participant list and a list that names a user
  twice are stored like any other.
\<close>

definition createChat :: "sys \<Rightarrow> create_chat_input \<Rightarrow> (error + chat) \<times> sys" where
  "createChat s inp = create_chat s inp"

definition addParticipant :: "sys \<Rightarrow> uuid \<Rightarrow> user_id \<Rightarrow> (error + chat) \<times> sys" where
  "addParticipant s cid uid =
     (case findOne_chat s cid of
        Inl e \<Rightarrow> (Inl e, s)
      | Inr c \<Rightarrow>
          if uid \<notin> set (participantIds c)
          then save_chat s (c\<lparr>participantIds := participantIds c @ [uid]\<rparr>)
          else (Inr c, s))"

definition addParticipants :: "sys \<Rightarrow> uuid \<Rightarrow> user_id list \<Rightarrow> (error + chat) \<times> sys" where
  "addParticipants s cid uids =
     (case findOne_chat s cid of
        Inl e \<Rightarrow> (Inl e, s)
      | Inr c \<Rightarrow>
          (let newParticipants = filter (\<lambda>u. u \<notin> set (participantIds c)) uids
           in if 0 < length newParticipants
              then (case save_chat s (c\<lparr>participantIds := participantIds c @ newParticipants\<rparr>) of
                      (Inl e, s1) \<Rightarrow> (Inl e, s1)
                    | (Inr savedChat, s1) \<Rightarrow> (Inr savedChat, publish (ChatUpdated savedChat) s1))
              else (Inr c, s)))"

definition removeParticipant :: "sys \<Rightarrow> uuid \<Rightarrow> user_id \<Rightarrow> (error + chat) \<times> sys" where
  "removeParticipant s cid uid =
     (case findOne_chat s cid of
        Inl e \<Rightarrow> (Inl e, s)
      | Inr c \<Rightarrow> save_chat s (c\<lparr>participantIds := filter (\<lambda>i. i \<noteq> uid) (participantIds c)\<rparr>))"

definition remove_chat :: "sys \<Rightarrow> uuid \<Rightarrow> (error + chat) \<times> sys" where
  "remove_chat s cid =
     (case findOne_chat s cid of
        Inl e \<Rightarrow> (Inl e, s)
      | Inr c \<Rightarrow> save_chat s (c\<lparr>isActive := False\<rparr>))"

section \<open>MessageService (write side)\<close>

record create_message_input =
  in_content :: string
  in_senderId :: user_id
  in_chatId :: uuid

text \<open>The loop of \<^verbatim>\<open>create\<close> over the other participants; a throw ends it.\<close>

fun increment_each :: "sys \<Rightarrow> uuid \<Rightarrow> user_id list \<Rightarrow> (error + unit) \<times> sys" where
  "increment_each s cid [] = (Inr (), s)"
| "increment_each s cid (participantId # rest) =
     (case incrementUnreadCount s cid participantId of
        (Inl e, s1) \<Rightarrow> (Inl e, s1)
      | (Inr _, s1) \<Rightarrow> increment_each s1 cid rest)"

definition create :: "sys \<Rightarrow> timestamp \<Rightarrow> create_message_input \<Rightarrow> (error + message) \<times> sys" where
  "create s now inp =
     (case isParticipant s (in_chatId inp) (in_senderId inp) of
        Inl e \<Rightarrow> (Inl e, s)
      | Inr False \<Rightarrow> (Inl Forbidden, s)
      | Inr True \<Rightarrow>
          (case store_write s of
             None \<Rightarrow> (Inl StoreUnavailable, s)
           | Some s1 \<Rightarrow>
               (let savedMessage = \<lparr>msg_id = Some (nextId s1), content = in_content inp,
                      senderId = in_senderId inp, chatId = in_chatId inp, createdAt = now,
                      isEdited = False, editedAt = None\<rparr>;
                    s2 = s1\<lparr>messages := (messages s1)(nextId s1 \<mapsto> savedMessage),
                            nextId := Suc (nextId s1)\<rparr>;
                    s3 = publish (MessageAdded savedMessage) s2;
                    s4 = publish (ChatMessageNotification (in_chatId inp) savedMessage
                                    (in_senderId inp)) s3;
                    s5 = publish (MessageUpdateForChatList (in_chatId inp) savedMessage
                                    (in_senderId inp)) s4
                in case findOne_chat s5 (in_chatId inp) of
                     Inl e \<Rightarrow> (Inl e, s5)
                   | Inr c \<Rightarrow>
                       (let otherParticipants =
                              filter (\<lambda>i. i \<noteq> in_senderId inp) (participantIds c)
                        in case increment_each s5 (in_chatId inp) otherParticipants of
                             (Inl e, s6) \<Rightarrow> (Inl e, s6)
                           | (Inr _, s6) \<Rightarrow> (Inr savedMessage, s6)))))"

definition findOne_message :: "sys \<Rightarrow> uuid \<Rightarrow> error + message" where
  "findOne_message s mid = (case messages s mid of None \<Rightarrow> Inl NotFound | Some m \<Rightarrow> Inr m)"

definition update :: "sys \<Rightarrow> timestamp \<Rightarrow> uuid \<Rightarrow> string \<Rightarrow> user_id \<Rightarrow> (error + message) \<times> sys" where
  "update s now mid newContent uid =
     (case findOne_message s mid of
        Inl e \<Rightarrow> (Inl e, s)
      | Inr m \<Rightarrow>
          if senderId m \<noteq> uid then (Inl Forbidden, s)
          else (case store_write s of
                  None \<Rightarrow> (Inl StoreUnavailable, s)
                | Some s1 \<Rightarrow>
                    (let updatedMessage = m\<lparr>content := newContent, isEdited := True,
                                            editedAt := Some now\<rparr>
                     in (Inr updatedMessage,
                         publish (MessageUpdated updatedMessage)
                           (s1\<lparr>messages := (messages s1)(mid \<mapsto> updatedMessage)\<rparr>)))))"

text \<open>
  The foreign key from a read receipt to its message is declared in two places that
  disagree: \<^verbatim>\<open>init-db.sql\<close> gives it \<^verbatim>\<open>ON DELETE CASCADE\<close>, the \<^verbatim>\<open>MessageRead\<close> entity
  (the schema TypeORM synchronises outside production) does not. Which one is in force is
  the parameter \<open>cascade\<close>: with it the receipts of the message are deleted with the
  message; without it the database rejects the deletion of a message that has receipts.
  \<^verbatim>\<open>Repository.remove\<close> takes the id off the entity, so the event published afterwards
  and the entity returned carry no id.
\<close>

definition remove :: "sys \<Rightarrow> bool \<Rightarrow> uuid \<Rightarrow> user_id \<Rightarrow> (error + message) \<times> sys" where
  "remove s cascade mid uid =
     (case findOne_message s mid of
        Inl e \<Rightarrow> (Inl e, s)
      | Inr m \<Rightarrow>
          if senderId m \<noteq> uid then (Inl Forbidden, s)
          else (case store_write s of
                  None \<Rightarrow> (Inl StoreUnavailable, s)
                | Some s1 \<Rightarrow>
                    if \<not> cascade \<and> (\<exists>r \<in> set (messageReads s1). messageId r = mid)
                    then (Inl QueryFailed, s)
                    else (let removed = m\<lparr>msg_id := None\<rparr>
                          in (Inr removed,
                              publish (MessageDeleted (msg_id removed) (chatId removed))
                                (s1\<lparr>messages := (messages s1)(mid := None),
                                    messageReads :=
                                      filter (\<lambda>r. messageId r \<noteq> mid) (messageReads s1)\<rparr>)))))"

definition findOne_read :: "sys \<Rightarrow> uuid \<Rightarrow> user_id \<Rightarrow> message_read option" where
  "findOne_read s mid uid =
     find (\<lambda>r. messageId r = mid \<and> userId r = uid) (messageReads s)"

definition markMessageAsRead ::
  "sys \<Rightarrow> timestamp \<Rightarrow> uuid \<Rightarrow> user_id \<Rightarrow> (error + message_read) \<times> sys" where
  "markMessageAsRead s now mid uid =
     (case findOne_message s mid of
        Inl e \<Rightarrow> (Inl e, s)
      | Inr m \<Rightarrow>
          (case isParticipant s (chatId m) uid of
             Inl e \<Rightarrow> (Inl e, s)
           | Inr False \<Rightarrow> (Inl Forbidden, s)
           | Inr True \<Rightarrow>
               (case findOne_read s mid uid of
                  Some existingRead \<Rightarrow> (Inr existingRead, s)
                | None \<Rightarrow>
                    (case store_write s of
                       None \<Rightarrow> (Inl StoreUnavailable, s)
                     | Some s1 \<Rightarrow>
                         (let savedRead = \<lparr>messageId = mid, userId = uid, readAt = now\<rparr>;
                              s2 = s1\<lparr>messageReads := messageReads s1 @ [savedRead]\<rparr>
                          in case findOne_chat s2 (chatId m) of
                               Inl e \<Rightarrow> (Inl e, s2)
                             | Inr c \<Rightarrow>
                                 (case (if 0 < getUnreadCount s2 (chatId m) uid
                                        then resetUnreadCount s2 (chatId m) uid
                                        else (Inr 0, s2)) of
                                    (Inl e, s3) \<Rightarrow> (Inl e, s3)
                                  | (Inr _, s3) \<Rightarrow>
                                      (Inr savedRead,
                                       publish (MessageReadUpdated mid uid (readAt savedRead)) s3)))))))"

section \<open>MessageService (read side)\<close>

record message_read_status =
  rs_messageId :: uuid
  totalParticipants :: nat
  readByCount :: nat
  isFullyRead :: bool
  readByUsers :: "(user_id \<times> timestamp) list"

definition getMessageReadStatus :: "sys \<Rightarrow> uuid \<Rightarrow> error + message_read_status" where
  "getMessageReadStatus s mid =
     (case findOne_message s mid of
        Inl e \<Rightarrow> Inl e
      | Inr m \<Rightarrow>
          (case findOne_chat s (chatId m) of
             Inl e \<Rightarrow> Inl e
           | Inr c \<Rightarrow>
               (let otherParticipants = filter (\<lambda>i. i \<noteq> senderId m) (participantIds c);
                    total = length otherParticipants;
                    reads = filter (\<lambda>r. messageId r = mid) (messageReads s);
                    cnt = length reads
                in Inr \<lparr>rs_messageId = mid, totalParticipants = total, readByCount = cnt,
                         isFullyRead = (total \<le> cnt),
                         readByUsers = map (\<lambda>r. (userId r, readAt r)) reads\<rparr>)))"

text \<open>The specification's reading: user \<open>uid\<close> holds a receipt for message \<open>mid\<close>.\<close>

definition has_receipt :: "sys \<Rightarrow> uuid \<Rightarrow> user_id \<Rightarrow> bool" where
  "has_receipt s mid uid = (\<exists>r \<in> set (messageReads s). messageId r = mid \<and> userId r = uid)"

definition receipts_of :: "sys \<Rightarrow> uuid \<Rightarrow> user_id \<Rightarrow> message_read list" where
  "receipts_of s mid uid = filter (\<lambda>r. messageId r = mid \<and> userId r = uid) (messageReads s)"

definition receipts_unique :: "sys \<Rightarrow> bool" where
  "receipts_unique s = distinct (map (\<lambda>r. (messageId r, userId r)) (messageReads s))"

text \<open>The events a command published: what it appended to the log of state \<open>s\<close>.\<close>

definition published_since :: "sys \<Rightarrow> sys \<Rightarrow> event list" where
  "published_since s s' = drop (length (published s)) (published s')"

definition is_unread_update :: "event \<Rightarrow> bool" where
  "is_unread_update e = (case e of UnreadCountUpdated c u v \<Rightarrow> True | _ \<Rightarrow> False)"

section \<open>Reader: subscription filters\<close>

text \<open>
  A subscription listens on one topic (\<^verbatim>\<open>asyncIterator(topic)\<close>) and its filter decides,
  from the payload and the subscriber's \<^verbatim>\<open>userId\<close> variable, whether the event is
  forwarded. \<open>forward_to\<close> lists the subscribers an event reaches.
\<close>

definition chatMessageNotification_filter :: "event \<Rightarrow> user_id \<Rightarrow> bool" where
  "chatMessageNotification_filter e uid =
     (case e of ChatMessageNotification c m sid \<Rightarrow> sid \<noteq> uid | _ \<Rightarrow> False)"

definition messageUpdateForChatList_filter :: "event \<Rightarrow> user_id \<Rightarrow> bool" where
  "messageUpdateForChatList_filter e uid =
     (case e of MessageUpdateForChatList c m sid \<Rightarrow> sid \<noteq> uid | _ \<Rightarrow> False)"

definition forward_to :: "string \<Rightarrow> (event \<Rightarrow> user_id \<Rightarrow> bool) \<Rightarrow> user_id list \<Rightarrow> event \<Rightarrow> user_id list" where
  "forward_to tp flt subscribers e =
     (if topic e = tp then filter (\<lambda>u. flt e u) subscribers else [])"

section \<open>Commands and reachable states\<close>

datatype command =
    CreateChat create_chat_input
  | AddParticipant uuid user_id
  | AddParticipants uuid "user_id list"
  | RemoveParticipant uuid user_id
  | RemoveChat uuid
  | CreateMessage timestamp create_message_input
  | UpdateMessage timestamp uuid string user_id
  | RemoveMessage bool uuid user_id
  | MarkMessageAsRead timestamp uuid user_id

fun exec :: "sys \<Rightarrow> command \<Rightarrow> sys" where
  "exec s (CreateChat inp) = snd (createChat s inp)"
| "exec s (AddParticipant cid uid) = snd (addParticipant s cid uid)"
| "exec s (AddParticipants cid uids) = snd (addParticipants s cid uids)"
| "exec s (RemoveParticipant cid uid) = snd (removeParticipant s cid uid)"
| "exec s (RemoveChat cid) = snd (remove_chat s cid)"
| "exec s (CreateMessage now inp) = snd (create s now inp)"
| "exec s (UpdateMessage now mid c uid) = snd (update s now mid c uid)"
| "exec s (RemoveMessage cascade mid uid) = snd (remove s cascade mid uid)"
| "exec s (MarkMessageAsRead now mid uid) = snd (markMessageAsRead s now mid uid)"

text \<open>The error a command ends with, if it throws.\<close>

definition err_of :: "(error + 'a) \<times> sys \<Rightarrow> error option" where
  "err_of r = (case fst r of Inl e \<Rightarrow> Some e | Inr _ \<Rightarrow> None)"

fun failure :: "sys \<Rightarrow> command \<Rightarrow> error option" where
  "failure s (CreateChat inp) = err_of (createChat s inp)"
| "failure s (AddParticipant cid uid) = err_of (addParticipant s cid uid)"
| "failure s (AddParticipants cid uids) = err_of (addParticipants s cid uids)"
| "failure s (RemoveParticipant cid uid) = err_of (removeParticipant s cid uid)"
| "failure s (RemoveChat cid) = err_of (remove_chat s cid)"
| "failure s (CreateMessage now inp) = err_of (create s now inp)"
| "failure s (UpdateMessage now mid c uid) = err_of (update s now mid c uid)"
| "failure s (RemoveMessage cascade mid uid) = err_of (remove s cascade mid uid)"
| "failure s (MarkMessageAsRead now mid uid) = err_of (markMessageAsRead s now mid uid)"

text \<open>The commands that write to the store once; the other two write several times.\<close>

fun single_write :: "command \<Rightarrow> bool" where
  "single_write (CreateMessage now inp) = False"
| "single_write (MarkMessageAsRead now mid uid) = False"
| "single_write _ = True"



text \<open>Every stored chat sits under its own id, and the id generator is past that id.\<close>

definition chats_wf :: "sys \<Rightarrow> bool" where
  "chats_wf s = (\<forall>cid c. chats s cid = Some c \<longrightarrow> chat_id c = cid \<and> cid < nextId s)"

text \<open>
  The states the system can be in: it starts empty, runs commands one after the other, and
  between two commands the store may become unavailable or available again.
\<close>

inductive reachable :: "sys \<Rightarrow> bool" where
  reach_init: "reachable empty_sys"
| reach_exec: "reachable s \<Longrightarrow> reachable (exec s cmd)"
| reach_avail: "reachable s \<Longrightarrow> reachable (s\<lparr>failAfter := b\<rparr>)"

section \<open>Interleaved counter operations\<close>

text \<open>
  Two service instances may run counter operations on one key at the same time. Each
  operation awaits its \<^verbatim>\<open>findOne\<close> and then its \<^verbatim>\<open>save\<close>, so the atomic steps are the
  read (kept in the register of the running operation) and the write of the entity
  computed from that read: an UPDATE when a row was read, an INSERT when none was, which
  fails if a row has appeared since. A schedule is the order in which these steps happen.
\<close>

datatype counter_kind = Inc | Rst

datatype sched_step = Find nat | Save nat counter_kind

fun sched_exec :: "uuid \<Rightarrow> user_id \<Rightarrow> sys \<times> (nat \<rightharpoonup> int option) \<Rightarrow> sched_step
                     \<Rightarrow> sys \<times> (nat \<rightharpoonup> int option)" where
  "sched_exec cid uid (s, regs) (Find i) = (s, regs(i \<mapsto> findOne_unread s cid uid))"
| "sched_exec cid uid (s, regs) (Save i k) =
     (case regs i of
        None \<Rightarrow> (s, regs)
      | Some found \<Rightarrow>
          (snd (save_unread s cid uid found
                  (case k of Inc \<Rightarrow> incremented found | Rst \<Rightarrow> zeroed found)),
           regs(i := None)))"

definition run_schedule :: "uuid \<Rightarrow> user_id \<Rightarrow> sys \<Rightarrow> sched_step list \<Rightarrow> sys" where
  "run_schedule cid uid s steps = fst (foldl (sched_exec cid uid) (s, Map.empty) steps)"

text \<open>The serial schedule: every operation's read is followed at once by its write.\<close>

definition serial :: "(nat \<times> counter_kind) list \<Rightarrow> sched_step list" where
  "serial ops = concat (map (\<lambda>(i, k). [Find i, Save i k]) ops)"

definition as_counter_op :: "uuid \<Rightarrow> user_id \<Rightarrow> counter_kind \<Rightarrow> counter_op" where
  "as_counter_op cid uid k = (case k of Inc \<Rightarrow> Increment cid uid | Rst \<Rightarrow> ResetToZero cid uid)"

section \<open>Scenarios\<close>

text \<open>
  The scenario of the specification: chat \<open>0\<close> with participants U1, U2 and U3; U1 sends
  "hi" (message \<open>1\<close>); U2 marks it as read; then U3 does.
\<close>

definition chat_input_A :: create_chat_input where
  "chat_input_A = \<lparr>in_name = ''C'', in_participantIds = [''U1'', ''U2'', ''U3'']\<rparr>"

definition msg_input_A :: create_message_input where
  "msg_input_A = \<lparr>in_content = ''hi'', in_senderId = ''U1'', in_chatId = 0\<rparr>"

definition state_A0 :: sys where
  "state_A0 = exec empty_sys (CreateChat chat_input_A)"

definition state_A :: sys where
  "state_A = exec state_A0 (CreateMessage 1 msg_input_A)"

definition state_B :: sys where
  "state_B = exec state_A (MarkMessageAsRead 2 1 ''U2'')"

definition state_C :: sys where
  "state_C = exec state_B (MarkMessageAsRead 3 1 ''U3'')"

text \<open>The same with a participant list that names U2 twice.\<close>

definition chat_input_D :: create_chat_input where
  "chat_input_D = \<lparr>in_name = ''D'', in_participantIds = [''U1'', ''U2'', ''U2'']\<rparr>"

definition state_D0 :: sys where
  "state_D0 = exec empty_sys (CreateChat chat_input_D)"

definition state_D :: sys where
  "state_D = exec state_D0 (CreateMessage 1 msg_input_A)"

definition state_E :: sys where
  "state_E = exec state_D (MarkMessageAsRead 2 1 ''U2'')"

text \<open>U4 is added to the chat of the first scenario by a call that names U4 twice.\<close>

definition state_F0 :: sys where
  "state_F0 = exec state_A0 (AddParticipants 0 [''U4'', ''U4''])"

definition state_F :: sys where
  "state_F = exec state_F0 (CreateMessage 1 msg_input_A)"

text \<open>U2, having read the message, is removed from the chat of the first scenario.\<close>

definition state_R :: sys where
  "state_R = exec state_B (RemoveParticipant 0 ''U2'')"

text \<open>The sender U1 marks the own message as read.\<close>

definition state_S :: sys where
  "state_S = exec state_A (MarkMessageAsRead 2 1 ''U1'')"




section \<open>The unread counter\<close>

lemma save_unread_ok:
  "failAfter s = None \<Longrightarrow>
   save_unread s cid uid (unreadCounts s (cid, uid)) v =
     (Inr v, s\<lparr>unreadCounts := (unreadCounts s)((cid, uid) \<mapsto> v),
               published := published s @ [UnreadCountUpdated cid uid v]\<rparr>)"
  by (cases "unreadCounts s (cid, uid)") (simp_all add: save_unread_def store_write_def publish_def)

lemma save_unread_cases:
  assumes "save_unread s cid uid found v = (r, s')"
  shows "((r = Inl StoreUnavailable \<or>
           r = Inl QueryFailed \<and> found = None \<and> unreadCounts s (cid, uid) \<noteq> None) \<and> s' = s) \<or>
         (r = Inr v \<and> unreadCounts s' = (unreadCounts s)((cid, uid) \<mapsto> v) \<and>
          published s' = published s @ [UnreadCountUpdated cid uid v] \<and>
          chats s' = chats s \<and> messages s' = messages s \<and>
          messageReads s' = messageReads s \<and> nextId s' = nextId s)"
  using assms
  by (auto simp: save_unread_def store_write_def publish_def
      split: option.splits nat.splits if_splits)

lemma incremented_nonneg: "(\<And>n. found = Some n \<Longrightarrow> 0 \<le> n) \<Longrightarrow> 0 \<le> incremented found"
  by (cases found) (auto simp: incremented_def)

lemma save_unread_nonneg:
  assumes "counters_nonneg s" and "0 \<le> v"
  shows "counters_nonneg (snd (save_unread s cid uid found v))"
proof -
  obtain r s' where eq: "save_unread s cid uid found v = (r, s')"
    by (cases "save_unread s cid uid found v")
  from save_unread_cases [OF eq] assms show ?thesis
    unfolding eq by (auto simp: counters_nonneg_def split: if_splits)
qed

lemma incrementUnreadCount_nonneg:
  "counters_nonneg s \<Longrightarrow> counters_nonneg (snd (incrementUnreadCount s cid uid))"
  unfolding incrementUnreadCount_def Let_def
  by (rule save_unread_nonneg, assumption, rule incremented_nonneg)
     (simp add: counters_nonneg_def findOne_unread_def)

lemma resetUnreadCount_nonneg:
  "counters_nonneg s \<Longrightarrow> counters_nonneg (snd (resetUnreadCount s cid uid))"
  unfolding resetUnreadCount_def Let_def
  by (rule save_unread_nonneg) (auto simp: zeroed_def split: option.splits)

lemma apply_counter_op_nonneg:
  "counters_nonneg s \<Longrightarrow> counters_nonneg (apply_counter_op s x)"
  by (cases x) (simp_all add: incrementUnreadCount_nonneg resetUnreadCount_nonneg)

lemma run_counter_ops_nonneg:
  "counters_nonneg s \<Longrightarrow> counters_nonneg (run_counter_ops s ops)"
  unfolding run_counter_ops_def
  by (induction ops arbitrary: s) (simp_all add: apply_counter_op_nonneg)

lemma run_counter_ops_snoc:
  "run_counter_ops s (ops @ [x]) = apply_counter_op (run_counter_ops s ops) x"
  by (simp add: run_counter_ops_def)

lemma apply_counter_op_ok:
  assumes "failAfter s = None"
  shows "failAfter (apply_counter_op s x) = None"
    and "unreadCounts (apply_counter_op s x) =
           (case x of
              Increment c u \<Rightarrow> (unreadCounts s)((c, u) \<mapsto> incremented (unreadCounts s (c, u)))
            | ResetToZero c u \<Rightarrow> (unreadCounts s)((c, u) \<mapsto> 0))"
proof -
  show "failAfter (apply_counter_op s x) = None"
    using assms
    by (cases x) (simp_all add: incrementUnreadCount_def resetUnreadCount_def Let_def
        findOne_unread_def save_unread_ok)
  show "unreadCounts (apply_counter_op s x) =
           (case x of
              Increment c u \<Rightarrow> (unreadCounts s)((c, u) \<mapsto> incremented (unreadCounts s (c, u)))
            | ResetToZero c u \<Rightarrow> (unreadCounts s)((c, u) \<mapsto> 0))"
    using assms
    by (cases x) (simp_all add: incrementUnreadCount_def resetUnreadCount_def Let_def
        save_unread_ok findOne_unread_def zeroed_def split: option.splits)
qed

lemma increments_since_reset_snoc:
  "increments_since_reset cid uid (ops @ [x]) =
     (if x = ResetToZero cid uid then 0
      else if x = Increment cid uid then Suc (increments_since_reset cid uid ops)
      else increments_since_reset cid uid ops)"
  unfolding increments_since_reset_def by (cases "x = ResetToZero cid uid") auto

lemma untouched_no_increments:
  "\<not> touched cid uid ops \<Longrightarrow> increments_since_reset cid uid ops = 0"
  by (auto simp: touched_def increments_since_reset_def filter_empty_conv dest: set_takeWhileD)

lemma run_counter_ops_row:
  assumes "failAfter s = None" and "unreadCounts s (cid, uid) = None"
  shows "failAfter (run_counter_ops s ops) = None \<and>
         unreadCounts (run_counter_ops s ops) (cid, uid) =
           (if touched cid uid ops then Some (int (increments_since_reset cid uid ops)) else None)"
proof (induction ops rule: rev_induct)
  case Nil
  show ?case using assms by (simp add: run_counter_ops_def touched_def)
next
  case (snoc x xs)
  let ?t = "run_counter_ops s xs"
  from snoc have fa: "failAfter ?t = None" by simp
  from snoc have row: "unreadCounts ?t (cid, uid) =
      (if touched cid uid xs then Some (int (increments_since_reset cid uid xs)) else None)"
    by simp
  have "failAfter (apply_counter_op ?t x) = None"
    using apply_counter_op_ok(1) [OF fa] .
  moreover have "unreadCounts (apply_counter_op ?t x) (cid, uid) =
      (if touched cid uid (xs @ [x])
       then Some (int (increments_since_reset cid uid (xs @ [x]))) else None)"
    unfolding apply_counter_op_ok(2) [OF fa] increments_since_reset_snoc
    using row
    by (cases x) (auto simp: incremented_def untouched_no_increments, auto simp: touched_def)
  ultimately show ?case by (simp add: run_counter_ops_snoc)
qed

section \<open>Events of the unread counter\<close>

lemma store_write_cases:
  assumes "store_write s = Some s1"
  shows "chats s1 = chats s \<and> messages s1 = messages s \<and> messageReads s1 = messageReads s \<and>
         unreadCounts s1 = unreadCounts s \<and> published s1 = published s \<and> nextId s1 = nextId s"
  using assms by (auto simp: store_write_def split: option.splits nat.splits)

lemma store_write_unavailable: "failAfter s = Some 0 \<Longrightarrow> store_write s = None"
  by (simp add: store_write_def)

lemma incrementUnreadCount_cases:
  assumes "incrementUnreadCount s cid uid = (r, s')"
  shows "(r = Inl StoreUnavailable \<and> s' = s) \<or>
         (r = Inr (getUnreadCount s cid uid + 1) \<and>
          unreadCounts s' = (unreadCounts s)((cid, uid) \<mapsto> getUnreadCount s cid uid + 1) \<and>
          published s' = published s @ [UnreadCountUpdated cid uid (getUnreadCount s cid uid + 1)] \<and>
          chats s' = chats s \<and> messages s' = messages s \<and>
          messageReads s' = messageReads s \<and> nextId s' = nextId s)"
proof -
  have "incremented (findOne_unread s cid uid) = getUnreadCount s cid uid + 1"
    by (simp add: incremented_def findOne_unread_def getUnreadCount_def split: option.splits)
  with save_unread_cases [of s cid uid "findOne_unread s cid uid"
         "incremented (findOne_unread s cid uid)" r s'] assms
  show ?thesis by (auto simp: incrementUnreadCount_def Let_def findOne_unread_def)
qed

lemma resetUnreadCount_cases:
  assumes "resetUnreadCount s cid uid = (r, s')"
  shows "(r = Inl StoreUnavailable \<and> s' = s) \<or>
         (r = Inr 0 \<and>
          unreadCounts s' = (unreadCounts s)((cid, uid) \<mapsto> 0) \<and>
          published s' = published s @ [UnreadCountUpdated cid uid 0] \<and>
          chats s' = chats s \<and> messages s' = messages s \<and>
          messageReads s' = messageReads s \<and> nextId s' = nextId s)"
proof -
  have "zeroed (findOne_unread s cid uid) = 0"
    by (simp add: zeroed_def split: option.splits)
  with save_unread_cases [of s cid uid "findOne_unread s cid uid"
         "zeroed (findOne_unread s cid uid)" r s'] assms
  show ?thesis by (auto simp: resetUnreadCount_def Let_def findOne_unread_def)
qed

lemma client_onData_converges:
  "client_getUnreadCount (client_onData view (UnreadCountUpdated cid uid v)) cid =
     (if v = 0 then 0 else v)"
  by (simp add: client_getUnreadCount_def client_onData_def)

lemma store_write_available: "failAfter s \<noteq> Some 0 \<Longrightarrow> store_write s \<noteq> None"
  by (auto simp: store_write_def split: option.splits nat.splits)

lemma counter_operations_available:
  assumes "failAfter s \<noteq> Some 0"
  shows "fst (incrementUnreadCount s cid uid) \<noteq> Inl StoreUnavailable"
    and "fst (resetUnreadCount s cid uid) \<noteq> Inl StoreUnavailable"
  using store_write_available [OF assms]
  by (auto simp: incrementUnreadCount_def resetUnreadCount_def Let_def save_unread_def
      split: option.splits if_splits)

text \<open>
  Claim C7. An operation \<open>incrementUnreadCount\<close> or \<open>resetUnreadCount\<close> that throws
  publishes nothing; one that returns publishes exactly one \<open>unreadCountUpdated\<close> event,
  whose value is the value just stored for the key (the value the operation returns), not
  a difference. The event passes the filter of the key's user, and a client that applies
  it holds the stored value for the chat whatever its view was before, so events missed
  earlier do not matter. On a store that accepts the write both operations do return:
  the increment stores and publishes the count read plus one, the reset stores and
  publishes 0.
\<close>

theorem unreadCountUpdated_carries_stored_value:
  "((incrementUnreadCount s cid uid = (r, s') \<or> resetUnreadCount s cid uid = (r, s')) \<longrightarrow>
     (case r of
        Inl e \<Rightarrow> published s' = published s
      | Inr v \<Rightarrow>
          published s' = published s @ [UnreadCountUpdated cid uid v] \<and>
          unreadCounts s' (cid, uid) = Some v \<and>
          getUnreadCount s' cid uid = v \<and>
          unreadCountUpdated_filter (UnreadCountUpdated cid uid v) uid \<and>
          client_getUnreadCount (client_onData view (UnreadCountUpdated cid uid v)) cid
            = getUnreadCount s' cid uid)) \<and>
   (failAfter s \<noteq> Some 0 \<longrightarrow>
      fst (incrementUnreadCount s cid uid) = Inr (getUnreadCount s cid uid + 1) \<and>
      published (snd (incrementUnreadCount s cid uid))
        = published s @ [UnreadCountUpdated cid uid (getUnreadCount s cid uid + 1)] \<and>
      unreadCounts (snd (incrementUnreadCount s cid uid)) (cid, uid)
        = Some (getUnreadCount s cid uid + 1) \<and>
      fst (resetUnreadCount s cid uid) = Inr 0 \<and>
      published (snd (resetUnreadCount s cid uid))
        = published s @ [UnreadCountUpdated cid uid 0] \<and>
      unreadCounts (snd (resetUnreadCount s cid uid)) (cid, uid) = Some 0)"
proof (intro conjI impI)
  assume "incrementUnreadCount s cid uid = (r, s') \<or> resetUnreadCount s cid uid = (r, s')"
  then show "case r of
        Inl e \<Rightarrow> published s' = published s
      | Inr v \<Rightarrow>
          published s' = published s @ [UnreadCountUpdated cid uid v] \<and>
          unreadCounts s' (cid, uid) = Some v \<and>
          getUnreadCount s' cid uid = v \<and>
          unreadCountUpdated_filter (UnreadCountUpdated cid uid v) uid \<and>
          client_getUnreadCount (client_onData view (UnreadCountUpdated cid uid v)) cid
            = getUnreadCount s' cid uid"
  proof
    assume "incrementUnreadCount s cid uid = (r, s')"
    from incrementUnreadCount_cases [OF this] show ?thesis
      by (auto simp: getUnreadCount_def unreadCountUpdated_filter_def client_onData_converges)
  next
    assume "resetUnreadCount s cid uid = (r, s')"
    from resetUnreadCount_cases [OF this] show ?thesis
      by (auto simp: getUnreadCount_def unreadCountUpdated_filter_def client_onData_converges)
  qed
next
  assume av: "failAfter s \<noteq> Some 0"
  have i: "incrementUnreadCount s cid uid
        = (fst (incrementUnreadCount s cid uid), snd (incrementUnreadCount s cid uid))" by simp
  from incrementUnreadCount_cases [OF i] counter_operations_available(1) [OF av, of cid uid]
  show "fst (incrementUnreadCount s cid uid) = Inr (getUnreadCount s cid uid + 1)"
    and "published (snd (incrementUnreadCount s cid uid))
        = published s @ [UnreadCountUpdated cid uid (getUnreadCount s cid uid + 1)]"
    and "unreadCounts (snd (incrementUnreadCount s cid uid)) (cid, uid)
        = Some (getUnreadCount s cid uid + 1)"
    by auto
  have z: "resetUnreadCount s cid uid
        = (fst (resetUnreadCount s cid uid), snd (resetUnreadCount s cid uid))" by simp
  from resetUnreadCount_cases [OF z] counter_operations_available(2) [OF av, of cid uid]
  show "fst (resetUnreadCount s cid uid) = Inr 0"
    and "published (snd (resetUnreadCount s cid uid))
        = published s @ [UnreadCountUpdated cid uid 0]"
    and "unreadCounts (snd (resetUnreadCount s cid uid)) (cid, uid) = Some 0"
    by auto
qed

text \<open>
  The second increment of a key publishes the value 2, the stored count, not the
  difference 1; a client with an empty view that applies this event alone shows 2. The
  reset that follows returns 0, stores 0 and publishes 0, and a client that shows 2
  shows 0 after this event.
\<close>

theorem unreadCountUpdated_carries_stored_value_witness:
  "incrementUnreadCount (snd (incrementUnreadCount empty_sys 0 ''u2'')) 0 ''u2''
     = (Inr 2, snd (incrementUnreadCount (snd (incrementUnreadCount empty_sys 0 ''u2'')) 0 ''u2'')) \<and>
   published (snd (incrementUnreadCount (snd (incrementUnreadCount empty_sys 0 ''u2'')) 0 ''u2''))
     = [UnreadCountUpdated 0 ''u2'' 1, UnreadCountUpdated 0 ''u2'' 2] \<and>
   client_getUnreadCount (client_onData Map.empty (UnreadCountUpdated 0 ''u2'' 2)) 0 = 2 \<and>
   getUnreadCount (snd (incrementUnreadCount (snd (incrementUnreadCount empty_sys 0 ''u2'')) 0 ''u2'')) 0 ''u2'' = 2 \<and>
   failAfter (snd (incrementUnreadCount (snd (incrementUnreadCount empty_sys 0 ''u2'')) 0 ''u2'')) \<noteq> Some 0 \<and>
   fst (resetUnreadCount
          (snd (incrementUnreadCount (snd (incrementUnreadCount empty_sys 0 ''u2'')) 0 ''u2'')) 0 ''u2'')
     = Inr 0 \<and>
   published (snd (resetUnreadCount
          (snd (incrementUnreadCount (snd (incrementUnreadCount empty_sys 0 ''u2'')) 0 ''u2'')) 0 ''u2''))
     = [UnreadCountUpdated 0 ''u2'' 1, UnreadCountUpdated 0 ''u2'' 2, UnreadCountUpdated 0 ''u2'' 0] \<and>
   unreadCounts (snd (resetUnreadCount
          (snd (incrementUnreadCount (snd (incrementUnreadCount empty_sys 0 ''u2'')) 0 ''u2'')) 0 ''u2''))
       (0, ''u2'') = Some 0 \<and>
   client_getUnreadCount (client_onData [0 \<mapsto> 2] (UnreadCountUpdated 0 ''u2'' 0)) 0 = 0"
proof -
  let ?s1 = "snd (incrementUnreadCount empty_sys 0 ''u2'')"
  let ?s2 = "snd (incrementUnreadCount ?s1 0 ''u2'')"
  let ?s3 = "snd (resetUnreadCount ?s2 0 ''u2'')"
  have run: "incrementUnreadCount ?s1 0 ''u2'' = (Inr 2, ?s2)"
    by (simp add: incrementUnreadCount_def Let_def save_unread_def store_write_def publish_def
        findOne_unread_def incremented_def empty_sys_def)
  have pub: "published ?s1 = [UnreadCountUpdated 0 ''u2'' 1]"
    by (simp add: incrementUnreadCount_def Let_def save_unread_def store_write_def publish_def
        findOne_unread_def incremented_def empty_sys_def)
  have av: "failAfter ?s2 \<noteq> Some 0"
    by (simp add: incrementUnreadCount_def Let_def save_unread_def store_write_def publish_def
        findOne_unread_def incremented_def empty_sys_def)
  have z: "resetUnreadCount ?s2 0 ''u2'' = (fst (resetUnreadCount ?s2 0 ''u2''), ?s3)" by simp
  note inc = unreadCountUpdated_carries_stored_value [of ?s1 0 "''u2''" "Inr 2" ?s2 Map.empty]
  note rst = unreadCountUpdated_carries_stored_value
               [of ?s2 0 "''u2''" "fst (resetUnreadCount ?s2 0 ''u2'')" ?s3 "[0 \<mapsto> 2]"]
  from inc run pub have p2: "published ?s2 = [UnreadCountUpdated 0 ''u2'' 1, UnreadCountUpdated 0 ''u2'' 2]"
    and rest: "client_getUnreadCount (client_onData Map.empty (UnreadCountUpdated 0 ''u2'' 2)) 0 = 2 \<and>
               getUnreadCount ?s2 0 ''u2'' = 2"
    by simp_all
  from rst av z have r0: "fst (resetUnreadCount ?s2 0 ''u2'') = Inr 0"
    and p3: "published ?s3 = published ?s2 @ [UnreadCountUpdated 0 ''u2'' 0]"
    and u3: "unreadCounts ?s3 (0, ''u2'') = Some 0"
    by blast+
  from rst z r0 have "client_getUnreadCount (client_onData [0 \<mapsto> 2] (UnreadCountUpdated 0 ''u2'' 0)) 0
      = getUnreadCount ?s3 0 ''u2''"
    by simp
  with u3 have c3: "client_getUnreadCount (client_onData [0 \<mapsto> 2] (UnreadCountUpdated 0 ''u2'' 0)) 0 = 0"
    by (simp add: getUnreadCount_def)
  from run p2 rest av r0 p3 u3 c3 show ?thesis by simp
qed

section \<open>Sending a message\<close>

lemma getUnreadCount_upd:
  "unreadCounts s' = (unreadCounts s)((cid, p) \<mapsto> getUnreadCount s cid p + 1) \<Longrightarrow>
   getUnreadCount s' c u = (if c = cid \<and> u = p then getUnreadCount s cid p + 1 else getUnreadCount s c u)"
  by (auto simp: getUnreadCount_def)

lemma increment_each_Inr:
  assumes "increment_each s cid us = (Inr x, s')"
  shows "unreadCounts s' (c, u) =
           (if c = cid \<and> u \<in> set us
            then Some (getUnreadCount s cid u + int (count_list us u))
            else unreadCounts s (c, u))"
  using assms
proof (induction us arbitrary: s)
  case Nil
  then show ?case by simp
next
  case (Cons p rest)
  obtain r s1 where step: "incrementUnreadCount s cid p = (r, s1)"
    by (cases "incrementUnreadCount s cid p")
  with Cons.prems obtain v where r: "r = Inr v" and rest: "increment_each s1 cid rest = (Inr x, s')"
    by (cases r) auto
  from incrementUnreadCount_cases [OF step] r
  have upd: "unreadCounts s1 = (unreadCounts s)((cid, p) \<mapsto> getUnreadCount s cid p + 1)"
    by auto
  note g = getUnreadCount_upd [OF upd]
  from Cons.IH [OF rest] have
    "unreadCounts s' (c, u) =
       (if c = cid \<and> u \<in> set rest
        then Some (getUnreadCount s1 cid u + int (count_list rest u))
        else unreadCounts s1 (c, u))" .
  then show ?case
    by (auto simp: g upd getUnreadCount_def)
qed

lemma increment_each_other_fields:
  assumes "increment_each s cid us = (r, s')"
  shows "chats s' = chats s \<and> messages s' = messages s \<and> messageReads s' = messageReads s \<and>
         nextId s' = nextId s"
  using assms
proof (induction us arbitrary: s)
  case Nil
  then show ?case by simp
next
  case (Cons p rest)
  obtain r1 s1 where step: "incrementUnreadCount s cid p = (r1, s1)"
    by (cases "incrementUnreadCount s cid p")
  from incrementUnreadCount_cases [OF step]
  have same: "chats s1 = chats s \<and> messages s1 = messages s \<and>
              messageReads s1 = messageReads s \<and> nextId s1 = nextId s" by auto
  show ?case
  proof (cases r1)
    case (Inl e)
    with Cons.prems step same show ?thesis by auto
  next
    case (Inr v)
    with Cons.prems step have "increment_each s1 cid rest = (r, s')" by simp
    from Cons.IH [OF this] same show ?thesis by simp
  qed
qed

text \<open>What a successful \<open>create\<close> went through.\<close>

lemma create_Inr:
  assumes "create s now inp = (Inr m, s')"
  obtains c s1 s5 where
    "findOne_chat s (in_chatId inp) = Inr c"
    "in_senderId inp \<in> set (participantIds c)"
    "store_write s = Some s1"
    "m = \<lparr>msg_id = Some (nextId s), content = in_content inp, senderId = in_senderId inp,
          chatId = in_chatId inp, createdAt = now, isEdited = False, editedAt = None\<rparr>"
    "unreadCounts s5 = unreadCounts s"
    "chats s5 = chats s"
    "messageReads s5 = messageReads s"
    "messages s5 = (messages s)(nextId s \<mapsto> m)"
    "nextId s5 = Suc (nextId s)"
    "published s5 = published s @ [MessageAdded m,
        ChatMessageNotification (in_chatId inp) m (in_senderId inp),
        MessageUpdateForChatList (in_chatId inp) m (in_senderId inp)]"
    "increment_each s5 (in_chatId inp)
       (filter (\<lambda>i. i \<noteq> in_senderId inp) (participantIds c)) = (Inr (), s')"
proof -
  from assms obtain c where c: "findOne_chat s (in_chatId inp) = Inr c"
    and mem: "in_senderId inp \<in> set (participantIds c)"
    by (auto simp: create_def isParticipant_def split: sum.splits bool.splits if_splits)
  from assms c mem obtain s1 where s1: "store_write s = Some s1"
    by (auto simp: create_def isParticipant_def split: option.splits)
  note sw = store_write_cases [OF s1]
  define m' where "m' = \<lparr>msg_id = Some (nextId s1), content = in_content inp, senderId = in_senderId inp,
          chatId = in_chatId inp, createdAt = now, isEdited = False, editedAt = None\<rparr>"
  define s5 where "s5 = publish (MessageUpdateForChatList (in_chatId inp) m' (in_senderId inp))
      (publish (ChatMessageNotification (in_chatId inp) m' (in_senderId inp))
        (publish (MessageAdded m')
          (s1\<lparr>messages := (messages s1)(nextId s1 \<mapsto> m'), nextId := Suc (nextId s1)\<rparr>)))"
  have c5: "findOne_chat s5 (in_chatId inp) = Inr c"
    using c sw by (simp add: findOne_chat_def s5_def publish_def)
  from assms have "(case increment_each s5 (in_chatId inp)
            (filter (\<lambda>i. i \<noteq> in_senderId inp) (participantIds c)) of
          (Inl e, s6) \<Rightarrow> (Inl e, s6)
        | (Inr _, s6) \<Rightarrow> (Inr m', s6)) = (Inr m, s')"
    using c mem s1 c5
    by (simp add: create_def isParticipant_def Let_def m'_def [symmetric] s5_def [symmetric])
  then have inc: "increment_each s5 (in_chatId inp)
       (filter (\<lambda>i. i \<noteq> in_senderId inp) (participantIds c)) = (Inr (), s')" and mm: "m = m'"
    by (auto split: prod.splits sum.splits)
  show ?thesis
    by (rule that [of c s1 s5])
       (use c mem s1 inc mm sw in \<open>simp_all add: m'_def s5_def publish_def\<close>)
qed

lemma count_list_filter_neq:
  "u \<noteq> x \<Longrightarrow> count_list (filter (\<lambda>i. i \<noteq> x) xs) u = count_list xs u"
  by (induction xs) auto

lemma count_list_distinct:
  "distinct xs \<Longrightarrow> u \<in> set xs \<Longrightarrow> count_list xs u = 1"
  by (induction xs) auto

text \<open>
  The counters after a successful \<open>create\<close>: the sender's counter row of the chat is as
  it was, and the counter of every other participant is raised once for each entry of the
  participant's id in the chat's \<open>participantIds\<close>, a missing row being created. On a
  list without duplicate entries that is exactly one, and a missing row is created with
  the value 1.
\<close>

lemma create_increments_other_participants:
  assumes "create s now inp = (Inr m, s')"
      and "chats s (in_chatId inp) = Some c"
  shows "in_senderId inp \<in> set (participantIds c) \<and>
         unreadCounts s' (in_chatId inp, in_senderId inp)
           = unreadCounts s (in_chatId inp, in_senderId inp) \<and>
         (\<forall>u \<in> set (participantIds c). u \<noteq> in_senderId inp \<longrightarrow>
            unreadCounts s' (in_chatId inp, u)
              = Some (getUnreadCount s (in_chatId inp) u + int (count_list (participantIds c) u)) \<and>
            (distinct (participantIds c) \<longrightarrow>
               unreadCounts s' (in_chatId inp, u) = Some (getUnreadCount s (in_chatId inp) u + 1)) \<and>
            (distinct (participantIds c) \<and> unreadCounts s (in_chatId inp, u) = None \<longrightarrow>
               unreadCounts s' (in_chatId inp, u) = Some 1))"
proof -
  from assms(1) obtain c' s1 s5 where
    c': "findOne_chat s (in_chatId inp) = Inr c'" and
    mem: "in_senderId inp \<in> set (participantIds c')" and
    u5: "unreadCounts s5 = unreadCounts s" and
    inc: "increment_each s5 (in_chatId inp)
       (filter (\<lambda>i. i \<noteq> in_senderId inp) (participantIds c')) = (Inr (), s')"
    by (rule create_Inr)
  from c' assms(2) have cc: "c' = c"
    by (auto simp: findOne_chat_def split: if_splits)
  have g5: "\<And>u. getUnreadCount s5 (in_chatId inp) u = getUnreadCount s (in_chatId inp) u"
    by (simp add: getUnreadCount_def u5)
  note row = increment_each_Inr [OF inc, unfolded g5 u5]
  have sender: "unreadCounts s' (in_chatId inp, in_senderId inp)
           = unreadCounts s (in_chatId inp, in_senderId inp)"
    using row [of "in_chatId inp" "in_senderId inp"] by simp
  have other: "unreadCounts s' (in_chatId inp, u)
              = Some (getUnreadCount s (in_chatId inp) u + int (count_list (participantIds c) u))"
    if "u \<in> set (participantIds c)" "u \<noteq> in_senderId inp" for u
    using row [of "in_chatId inp" u] that cc by (simp add: count_list_filter_neq)
  have one: "count_list (participantIds c) u = 1"
    if "u \<in> set (participantIds c)" "distinct (participantIds c)" for u
    using that by (simp add: count_list_distinct)
  show ?thesis
    using mem cc sender other one by (auto simp: getUnreadCount_def)
qed

lemmas service_defs =
  createChat_def create_chat_def save_chat_def store_write_def
  publish_def findOne_chat_def isParticipant_def addParticipant_def addParticipants_def
  removeParticipant_def remove_chat_def create_def findOne_message_def update_def remove_def
  findOne_read_def markMessageAsRead_def incrementUnreadCount_def resetUnreadCount_def
  save_unread_def findOne_unread_def incremented_def zeroed_def getUnreadCount_def
  getMessageReadStatus_def empty_sys_def Let_def

lemma state_A0_eval:
  "state_A0 = \<lparr>chats = [0 \<mapsto> \<lparr>chat_id = 0, chat_name = ''C'',
                     participantIds = [''U1'', ''U2'', ''U3''], isActive = True\<rparr>],
      messages = Map.empty, messageReads = [], unreadCounts = Map.empty,
      published = [ChatAdded \<lparr>chat_id = 0, chat_name = ''C'',
                     participantIds = [''U1'', ''U2'', ''U3''], isActive = True\<rparr>],
      nextId = 1, failAfter = None\<rparr>"
  by (simp add: state_A0_def chat_input_A_def service_defs)

lemma state_A_eval:
  "state_A = \<lparr>chats = [0 \<mapsto> \<lparr>chat_id = 0, chat_name = ''C'',
                     participantIds = [''U1'', ''U2'', ''U3''], isActive = True\<rparr>],
      messages = [1 \<mapsto> \<lparr>msg_id = Some 1, content = ''hi'', senderId = ''U1'', chatId = 0,
                     createdAt = 1, isEdited = False, editedAt = None\<rparr>],
      messageReads = [],
      unreadCounts = [(0, ''U2'') \<mapsto> 1, (0, ''U3'') \<mapsto> 1],
      published = [ChatAdded \<lparr>chat_id = 0, chat_name = ''C'',
                     participantIds = [''U1'', ''U2'', ''U3''], isActive = True\<rparr>,
                   MessageAdded \<lparr>msg_id = Some 1, content = ''hi'', senderId = ''U1'', chatId = 0,
                     createdAt = 1, isEdited = False, editedAt = None\<rparr>,
                   ChatMessageNotification 0 \<lparr>msg_id = Some 1, content = ''hi'', senderId = ''U1'',
                     chatId = 0, createdAt = 1, isEdited = False, editedAt = None\<rparr> ''U1'',
                   MessageUpdateForChatList 0 \<lparr>msg_id = Some 1, content = ''hi'', senderId = ''U1'',
                     chatId = 0, createdAt = 1, isEdited = False, editedAt = None\<rparr> ''U1'',
                   UnreadCountUpdated 0 ''U2'' 1, UnreadCountUpdated 0 ''U3'' 1],
      nextId = 2, failAfter = None\<rparr>"
  by (simp add: state_A_def state_A0_eval msg_input_A_def service_defs)

lemma create_A:
  "create state_A0 1 msg_input_A =
     (Inr \<lparr>msg_id = Some 1, content = ''hi'', senderId = ''U1'', chatId = 0,
            createdAt = 1, isEdited = False, editedAt = None\<rparr>, state_A)"
  unfolding state_A_eval
  by (simp add: state_A0_eval msg_input_A_def service_defs)


text \<open>
  Scenario A: after U1 sends "hi", the counters of U2 and U3 for the chat are 1 and U1 has
  no counter row.
\<close>

lemma create_increments_scenario_A:
  "create state_A0 1 msg_input_A =
     (Inr \<lparr>msg_id = Some 1, content = ''hi'', senderId = ''U1'', chatId = 0,
            createdAt = 1, isEdited = False, editedAt = None\<rparr>, state_A) \<and>
   chats state_A0 (in_chatId msg_input_A) =
     Some \<lparr>chat_id = 0, chat_name = ''C'', participantIds = [''U1'', ''U2'', ''U3''],
           isActive = True\<rparr> \<and>
   unreadCounts state_A0 (0, ''U2'') = None \<and>
   unreadCounts state_A (0, ''U2'') = Some 1 \<and>
   unreadCounts state_A (0, ''U3'') = Some 1 \<and>
   unreadCounts state_A (0, ''U1'') = None"
proof -
  have c: "chats state_A0 (in_chatId msg_input_A) =
     Some \<lparr>chat_id = 0, chat_name = ''C'', participantIds = [''U1'', ''U2'', ''U3''],
           isActive = True\<rparr>"
    by (simp add: state_A0_eval msg_input_A_def)
  have n: "unreadCounts state_A0 (0, ''U2'') = None \<and> unreadCounts state_A0 (0, ''U3'') = None \<and>
           unreadCounts state_A0 (0, ''U1'') = None"
    by (simp add: state_A0_eval)
  from create_increments_other_participants [OF create_A c] n create_A c
  show ?thesis by (simp add: msg_input_A_def getUnreadCount_def)
qed

text \<open>
  Claim C4, the failing input. A participant list can name a user twice: \<open>createChat\<close>
  stores the list it is given (\<open>state_D0\<close>, U2 twice), and \<open>addParticipants\<close> filters
  the new ids against the stored list only, so an id repeated in its argument is appended
  twice (\<open>state_F0\<close>, U4 twice). One message of U1 then raises the counter of that user
  from no row to 2, publishing the values 1 and 2, where the claim says by exactly one.
\<close>

theorem duplicate_participant_incremented_twice:
  "chats state_D0 0 = Some \<lparr>chat_id = 0, chat_name = ''D'',
                             participantIds = [''U1'', ''U2'', ''U2''], isActive = True\<rparr> \<and>
   fst (create state_D0 1 msg_input_A) =
     Inr \<lparr>msg_id = Some 1, content = ''hi'', senderId = ''U1'', chatId = 0,
           createdAt = 1, isEdited = False, editedAt = None\<rparr> \<and>
   state_D = snd (create state_D0 1 msg_input_A) \<and>
   unreadCounts state_D0 (0, ''U2'') = None \<and>
   unreadCounts state_D (0, ''U2'') = Some 2 \<and>
   filter is_unread_update (published_since state_D0 state_D)
     = [UnreadCountUpdated 0 ''U2'' 1, UnreadCountUpdated 0 ''U2'' 2] \<and>
   chats state_F0 0 = Some \<lparr>chat_id = 0, chat_name = ''C'',
                             participantIds = [''U1'', ''U2'', ''U3'', ''U4'', ''U4''],
                             isActive = True\<rparr> \<and>
   fst (create state_F0 1 msg_input_A) =
     Inr \<lparr>msg_id = Some 1, content = ''hi'', senderId = ''U1'', chatId = 0,
           createdAt = 1, isEdited = False, editedAt = None\<rparr> \<and>
   state_F = snd (create state_F0 1 msg_input_A) \<and>
   unreadCounts state_F0 (0, ''U4'') = None \<and>
   unreadCounts state_F (0, ''U4'') = Some 2 \<and>
   unreadCounts state_F (0, ''U2'') = Some 1"
  by (simp add: state_D_def state_D0_def chat_input_D_def state_F_def state_F0_def
      state_A0_eval msg_input_A_def published_since_def is_unread_update_def service_defs)

section \<open>Failing writes\<close>

lemma unavailable_createChat: "failAfter s = Some 0 \<Longrightarrow> snd (createChat s inp) = s"
  by (simp add: createChat_def create_chat_def save_chat_def store_write_unavailable)

lemma unavailable_addParticipant: "failAfter s = Some 0 \<Longrightarrow> snd (addParticipant s cid uid) = s"
  by (simp add: addParticipant_def save_chat_def store_write_unavailable split: sum.splits)

lemma unavailable_addParticipants: "failAfter s = Some 0 \<Longrightarrow> snd (addParticipants s cid uids) = s"
  by (simp add: addParticipants_def save_chat_def store_write_unavailable Let_def split: sum.splits)

lemma unavailable_removeParticipant: "failAfter s = Some 0 \<Longrightarrow> snd (removeParticipant s cid uid) = s"
  by (simp add: removeParticipant_def save_chat_def store_write_unavailable split: sum.splits)

lemma unavailable_remove_chat: "failAfter s = Some 0 \<Longrightarrow> snd (remove_chat s cid) = s"
  by (simp add: remove_chat_def save_chat_def store_write_unavailable split: sum.splits)

lemma unavailable_create: "failAfter s = Some 0 \<Longrightarrow> snd (create s now inp) = s"
  by (simp add: create_def store_write_unavailable split: sum.splits bool.splits)

lemma unavailable_update: "failAfter s = Some 0 \<Longrightarrow> snd (update s now mid c uid) = s"
  by (simp add: update_def store_write_unavailable split: sum.splits)

lemma unavailable_remove: "failAfter s = Some 0 \<Longrightarrow> snd (remove s cascade mid uid) = s"
  by (simp add: remove_def store_write_unavailable split: sum.splits)

lemma unavailable_markMessageAsRead:
  "failAfter s = Some 0 \<Longrightarrow> snd (markMessageAsRead s now mid uid) = s"
  by (simp add: markMessageAsRead_def store_write_unavailable
      split: sum.splits bool.splits option.splits)

lemma unavailable_exec: "failAfter s = Some 0 \<Longrightarrow> exec s cmd = s"
  by (cases cmd)
     (simp_all add: unavailable_createChat unavailable_addParticipant unavailable_addParticipants
        unavailable_removeParticipant unavailable_remove_chat unavailable_create
        unavailable_update unavailable_remove unavailable_markMessageAsRead)

lemma save_chat_failed: "fst (save_chat s c) = Inl e \<Longrightarrow> snd (save_chat s c) = s"
  by (auto simp: save_chat_def split: option.splits)

lemma save_unread_failed:
  "fst (save_unread s cid uid found v) = Inl e \<Longrightarrow> snd (save_unread s cid uid found v) = s"
  by (auto simp: save_unread_def split: option.splits if_splits)

lemma single_write_failed:
  assumes "single_write cmd" and "failure s cmd = Some e"
  shows "exec s cmd = s"
proof (cases cmd)
  case (CreateChat inp)
  with assms(2) show ?thesis
    by (auto simp: err_of_def createChat_def create_chat_def save_chat_def Let_def
        split: sum.splits option.splits if_splits)
next
  case (AddParticipant cid uid)
  with assms(2) show ?thesis
    by (auto simp: err_of_def addParticipant_def save_chat_def
        split: sum.splits option.splits if_splits)
next
  case (AddParticipants cid uids)
  with assms(2) show ?thesis
    by (auto simp: err_of_def addParticipants_def save_chat_def Let_def
        split: sum.splits option.splits if_splits)
next
  case (RemoveParticipant cid uid)
  with assms(2) show ?thesis
    by (auto simp: err_of_def removeParticipant_def save_chat_def
        split: sum.splits option.splits if_splits)
next
  case (RemoveChat cid)
  with assms(2) show ?thesis
    by (auto simp: err_of_def remove_chat_def save_chat_def
        split: sum.splits option.splits if_splits)
next
  case (CreateMessage now inp)
  with assms(1) show ?thesis by simp
next
  case (UpdateMessage now mid c uid)
  with assms(2) show ?thesis
    by (auto simp: err_of_def update_def Let_def split: sum.splits option.splits if_splits)
next
  case (RemoveMessage cascade mid uid)
  with assms(2) show ?thesis
    by (auto simp: err_of_def remove_def Let_def split: sum.splits option.splits if_splits)
next
  case (MarkMessageAsRead now mid uid)
  with assms(1) show ?thesis by simp
qed

text \<open>
  Claim C5, amended. A command that meets an unavailable store at its first write has no
  effect: the state after it is the state before, so nothing is stored, nothing published
  and no counter changed. Every command except \<open>create\<close> (send message) and
  \<open>markMessageAsRead\<close> writes once, so whenever such a command throws, the state is
  unchanged; the same holds for \<open>incrementUnreadCount\<close> and \<open>resetUnreadCount\<close> on their
  own. Nothing is promised about a failure of a later write of \<open>create\<close> or
  \<open>markMessageAsRead\<close>.
\<close>

theorem failed_write_leaves_state:
  "(failAfter s = Some 0 \<longrightarrow> exec s cmd = s) \<and>
   (single_write cmd \<and> failure s cmd = Some e \<longrightarrow> exec s cmd = s) \<and>
   (fst (incrementUnreadCount s cid uid) = Inl e \<longrightarrow> snd (incrementUnreadCount s cid uid) = s) \<and>
   (fst (resetUnreadCount s cid uid) = Inl e \<longrightarrow> snd (resetUnreadCount s cid uid) = s)"
  using unavailable_exec [of s cmd] single_write_failed [of cmd s e]
    save_unread_failed [of s cid uid _ _ e]
  by (auto simp: incrementUnreadCount_def resetUnreadCount_def Let_def)

text \<open>
  With the store unavailable, sending a message, removing a participant and both counter
  operations throw and leave the state of the first scenario as it was.
\<close>

theorem failed_write_leaves_state_witness:
  "failAfter (state_A0\<lparr>failAfter := Some 0\<rparr>) = Some 0 \<and>
   exec (state_A0\<lparr>failAfter := Some 0\<rparr>) (CreateMessage 1 msg_input_A)
     = state_A0\<lparr>failAfter := Some 0\<rparr> \<and>
   single_write (RemoveParticipant 0 ''U2'') \<and>
   failure (state_A0\<lparr>failAfter := Some 0\<rparr>) (RemoveParticipant 0 ''U2'') = Some StoreUnavailable \<and>
   exec (state_A0\<lparr>failAfter := Some 0\<rparr>) (RemoveParticipant 0 ''U2'')
     = state_A0\<lparr>failAfter := Some 0\<rparr> \<and>
   fst (incrementUnreadCount (state_A0\<lparr>failAfter := Some 0\<rparr>) 0 ''U2'') = Inl StoreUnavailable \<and>
   snd (incrementUnreadCount (state_A0\<lparr>failAfter := Some 0\<rparr>) 0 ''U2'')
     = state_A0\<lparr>failAfter := Some 0\<rparr> \<and>
   fst (resetUnreadCount (state_A0\<lparr>failAfter := Some 0\<rparr>) 0 ''U2'') = Inl StoreUnavailable \<and>
   snd (resetUnreadCount (state_A0\<lparr>failAfter := Some 0\<rparr>) 0 ''U2'')
     = state_A0\<lparr>failAfter := Some 0\<rparr>"
proof -
  let ?s = "state_A0\<lparr>failAfter := Some 0\<rparr>"
  have f: "failure ?s (RemoveParticipant 0 ''U2'') = Some StoreUnavailable"
    by (simp add: err_of_def state_A0_eval service_defs)
  have i: "fst (incrementUnreadCount ?s 0 ''U2'') = Inl StoreUnavailable"
    by (simp add: state_A0_eval service_defs)
  have r: "fst (resetUnreadCount ?s 0 ''U2'') = Inl StoreUnavailable"
    by (simp add: state_A0_eval service_defs)
  from failed_write_leaves_state [of ?s "CreateMessage 1 msg_input_A" StoreUnavailable 0 "''U2''"]
       failed_write_leaves_state [of ?s "RemoveParticipant 0 ''U2''" StoreUnavailable 0 "''U2''"]
       f i r
  show ?thesis by simp
qed

text \<open>
  Claim C5 as stated fails: when the store fails at the third write of a \<open>create\<close> (the
  counter of U3), the command throws, yet the message is stored, four events are
  published and the counter of U2 is changed.
\<close>

theorem create_partial_effects_counterexample:
  "fst (create (state_A0\<lparr>failAfter := Some 2\<rparr>) 1 msg_input_A) = Inl StoreUnavailable \<and>
   unreadCounts state_A0 (0, ''U2'') = None \<and>
   unreadCounts (snd (create (state_A0\<lparr>failAfter := Some 2\<rparr>) 1 msg_input_A)) (0, ''U2'') = Some 1 \<and>
   unreadCounts (snd (create (state_A0\<lparr>failAfter := Some 2\<rparr>) 1 msg_input_A)) (0, ''U3'') = None \<and>
   published_since state_A0 (snd (create (state_A0\<lparr>failAfter := Some 2\<rparr>) 1 msg_input_A)) =
     [MessageAdded \<lparr>msg_id = Some 1, content = ''hi'', senderId = ''U1'', chatId = 0,
                     createdAt = 1, isEdited = False, editedAt = None\<rparr>,
      ChatMessageNotification 0 \<lparr>msg_id = Some 1, content = ''hi'', senderId = ''U1'',
                     chatId = 0, createdAt = 1, isEdited = False, editedAt = None\<rparr> ''U1'',
      MessageUpdateForChatList 0 \<lparr>msg_id = Some 1, content = ''hi'', senderId = ''U1'',
                     chatId = 0, createdAt = 1, isEdited = False, editedAt = None\<rparr> ''U1'',
      UnreadCountUpdated 0 ''U2'' 1]"
  by (simp add: state_A0_eval msg_input_A_def published_since_def service_defs)

section \<open>Read receipts\<close>

lemma save_chat_cases:
  assumes "save_chat s c = (r, s')"
  shows "(r = Inl StoreUnavailable \<and> s' = s) \<or>
         (r = Inr c \<and> chats s' = (chats s)(chat_id c \<mapsto> c) \<and> messages s' = messages s \<and>
          messageReads s' = messageReads s \<and> unreadCounts s' = unreadCounts s \<and>
          published s' = published s \<and> nextId s' = nextId s)"
  using assms
  by (auto simp: save_chat_def store_write_def split: option.splits nat.splits)

lemma save_chat_frame:
  "messageReads (snd (save_chat s c)) = messageReads s \<and>
   unreadCounts (snd (save_chat s c)) = unreadCounts s \<and>
   messages (snd (save_chat s c)) = messages s \<and>
   nextId (snd (save_chat s c)) = nextId s"
  using save_chat_cases [of s c "fst (save_chat s c)" "snd (save_chat s c)"] by auto

lemma chat_commands_frame:
  "messageReads (snd (createChat s inp)) = messageReads s \<and>
   unreadCounts (snd (createChat s inp)) = unreadCounts s"
  "messageReads (snd (addParticipant s cid uid)) = messageReads s \<and>
   unreadCounts (snd (addParticipant s cid uid)) = unreadCounts s"
  "messageReads (snd (addParticipants s cid uids)) = messageReads s \<and>
   unreadCounts (snd (addParticipants s cid uids)) = unreadCounts s"
  "messageReads (snd (removeParticipant s cid uid)) = messageReads s \<and>
   unreadCounts (snd (removeParticipant s cid uid)) = unreadCounts s"
  "messageReads (snd (remove_chat s cid)) = messageReads s \<and>
   unreadCounts (snd (remove_chat s cid)) = unreadCounts s"
proof -
  note f = save_chat_frame
  obtain r s1 where c: "save_chat s \<lparr>chat_id = nextId s, chat_name = in_name inp,
                participantIds = in_participantIds inp, isActive = True\<rparr> = (r, s1)"
    by (cases "save_chat s \<lparr>chat_id = nextId s, chat_name = in_name inp,
                participantIds = in_participantIds inp, isActive = True\<rparr>")
  from save_chat_cases [OF c] c
  show "messageReads (snd (createChat s inp)) = messageReads s \<and>
        unreadCounts (snd (createChat s inp)) = unreadCounts s"
    by (auto simp: createChat_def create_chat_def publish_def Let_def)
  show "messageReads (snd (addParticipant s cid uid)) = messageReads s \<and>
        unreadCounts (snd (addParticipant s cid uid)) = unreadCounts s"
    by (simp add: addParticipant_def f split: sum.splits)
  show "messageReads (snd (removeParticipant s cid uid)) = messageReads s \<and>
        unreadCounts (snd (removeParticipant s cid uid)) = unreadCounts s"
    by (simp add: removeParticipant_def f split: sum.splits)
  show "messageReads (snd (remove_chat s cid)) = messageReads s \<and>
        unreadCounts (snd (remove_chat s cid)) = unreadCounts s"
    by (simp add: remove_chat_def f split: sum.splits)
  show "messageReads (snd (addParticipants s cid uids)) = messageReads s \<and>
        unreadCounts (snd (addParticipants s cid uids)) = unreadCounts s"
  proof (cases "findOne_chat s cid")
    case (Inl e)
    then show ?thesis by (simp add: addParticipants_def)
  next
    case (Inr c)
    let ?c' = "c\<lparr>participantIds := participantIds c @ filter (\<lambda>u. u \<notin> set (participantIds c)) uids\<rparr>"
    obtain r s1 where sc: "save_chat s ?c' = (r, s1)" by (cases "save_chat s ?c'")
    from save_chat_cases [OF sc] sc Inr show ?thesis
      by (auto simp: addParticipants_def Let_def publish_def)
  qed
qed

lemma increment_each_nonneg:
  "counters_nonneg s \<Longrightarrow> counters_nonneg (snd (increment_each s cid us))"
proof (induction us arbitrary: s)
  case Nil
  then show ?case by simp
next
  case (Cons p rest)
  from incrementUnreadCount_nonneg [OF Cons.prems, of cid p] Cons.IH
  show ?case by (auto split: prod.splits sum.splits)
qed

lemma create_snd:
  "\<exists>t us. unreadCounts t = unreadCounts s \<and> chats t = chats s \<and>
          messageReads t = messageReads s \<and> nextId s \<le> nextId t \<and>
          (snd (create s now inp) = t \<or>
           snd (create s now inp) = snd (increment_each t (in_chatId inp) us))"
proof -
  have triv: "\<exists>t us. unreadCounts t = unreadCounts s \<and> chats t = chats s \<and>
          messageReads t = messageReads s \<and> nextId s \<le> nextId t \<and>
          (s = t \<or> s = snd (increment_each t (in_chatId inp) us))"
    by blast
  show ?thesis
  proof (cases "isParticipant s (in_chatId inp) (in_senderId inp)")
    case (Inl e)
    then show ?thesis using triv by (simp add: create_def)
  next
    case (Inr b)
    show ?thesis
    proof (cases b)
      case False
      with Inr show ?thesis using triv by (simp add: create_def)
    next
      case True
      show ?thesis
      proof (cases "store_write s")
        case None
        with Inr True show ?thesis using triv by (simp add: create_def)
      next
        case (Some s1)
        note sw = store_write_cases [OF Some]
        define m where "m = \<lparr>msg_id = Some (nextId s1), content = in_content inp,
            senderId = in_senderId inp, chatId = in_chatId inp, createdAt = now,
            isEdited = False, editedAt = None\<rparr>"
        define s5 where "s5 = publish (MessageUpdateForChatList (in_chatId inp) m (in_senderId inp))
          (publish (ChatMessageNotification (in_chatId inp) m (in_senderId inp))
            (publish (MessageAdded m)
              (s1\<lparr>messages := (messages s1)(nextId s1 \<mapsto> m), nextId := Suc (nextId s1)\<rparr>)))"
        have fr: "unreadCounts s5 = unreadCounts s \<and> chats s5 = chats s \<and>
                  messageReads s5 = messageReads s \<and> nextId s \<le> nextId s5"
          using sw by (simp add: s5_def publish_def)
        have cr: "create s now inp =
            (case findOne_chat s5 (in_chatId inp) of
               Inl e \<Rightarrow> (Inl e, s5)
             | Inr c \<Rightarrow>
                 (case increment_each s5 (in_chatId inp)
                         (filter (\<lambda>i. i \<noteq> in_senderId inp) (participantIds c)) of
                    (Inl e, s6) \<Rightarrow> (Inl e, s6)
                  | (Inr _, s6) \<Rightarrow> (Inr m, s6)))"
          using Inr True Some unfolding create_def Let_def m_def s5_def
          by simp
        show ?thesis
        proof (cases "findOne_chat s5 (in_chatId inp)")
          case (Inl e)
          with cr fr show ?thesis by auto
        next
          case (Inr c)
          with cr have "snd (create s now inp) = snd (increment_each s5 (in_chatId inp)
                         (filter (\<lambda>i. i \<noteq> in_senderId inp) (participantIds c)))"
            by (auto split: prod.splits sum.splits)
          with fr show ?thesis by blast
        qed
      qed
    qed
  qed
qed

lemma create_frame:
  "chats (snd (create s now inp)) = chats s \<and>
   messageReads (snd (create s now inp)) = messageReads s"
proof -
  from create_snd [of s now inp] obtain t us where
    fr: "unreadCounts t = unreadCounts s" "chats t = chats s" "messageReads t = messageReads s"
    and d: "snd (create s now inp) = t \<or>
            snd (create s now inp) = snd (increment_each t (in_chatId inp) us)"
    by blast
  have "chats (snd (increment_each t (in_chatId inp) us)) = chats t \<and>
        messageReads (snd (increment_each t (in_chatId inp) us)) = messageReads t"
    using increment_each_other_fields
      [of t "in_chatId inp" us "fst (increment_each t (in_chatId inp) us)"
          "snd (increment_each t (in_chatId inp) us)"]
    by simp
  with fr d show ?thesis by auto
qed

lemma create_nonneg:
  assumes "counters_nonneg s"
  shows "counters_nonneg (snd (create s now inp))"
proof -
  from create_snd [of s now inp] obtain t us where
    fr: "unreadCounts t = unreadCounts s"
    and d: "snd (create s now inp) = t \<or>
            snd (create s now inp) = snd (increment_each t (in_chatId inp) us)"
    by blast
  from assms fr have "counters_nonneg t" by (simp add: counters_nonneg_def)
  with d increment_each_nonneg [of t "in_chatId inp" us] show ?thesis by auto
qed

lemma update_frame:
  "messageReads (snd (update s now mid c uid)) = messageReads s \<and>
   unreadCounts (snd (update s now mid c uid)) = unreadCounts s \<and>
   chats (snd (update s now mid c uid)) = chats s"
  by (auto simp: update_def Let_def publish_def split: sum.splits option.splits
      dest!: store_write_cases)

lemma remove_frame:
  "unreadCounts (snd (remove s cascade mid uid)) = unreadCounts s \<and>
   chats (snd (remove s cascade mid uid)) = chats s \<and>
   (messageReads (snd (remove s cascade mid uid)) = messageReads s \<or>
    messageReads (snd (remove s cascade mid uid))
      = filter (\<lambda>r. messageId r \<noteq> mid) (messageReads s))"
  by (auto simp: remove_def publish_def Let_def split: sum.splits option.splits
      dest!: store_write_cases)

text \<open>What \<open>markMessageAsRead\<close> does to the receipts, the chats and the counters.\<close>

lemma markMessageAsRead_snd:
  "chats (snd (markMessageAsRead s now mid uid)) = chats s \<and>
   messages (snd (markMessageAsRead s now mid uid)) = messages s \<and>
   (messageReads (snd (markMessageAsRead s now mid uid)) = messageReads s \<or>
    findOne_read s mid uid = None \<and>
    messageReads (snd (markMessageAsRead s now mid uid))
      = messageReads s @ [\<lparr>messageId = mid, userId = uid, readAt = now\<rparr>]) \<and>
   (unreadCounts (snd (markMessageAsRead s now mid uid)) = unreadCounts s \<or>
    (\<exists>c. unreadCounts (snd (markMessageAsRead s now mid uid)) = (unreadCounts s)((c, uid) \<mapsto> 0)))"
proof -
  have "chats s' = chats s \<and> messages s' = messages s \<and>
     (messageReads s' = messageReads s \<or>
      findOne_read s mid uid = None \<and>
      messageReads s' = messageReads s @ [\<lparr>messageId = mid, userId = uid, readAt = now\<rparr>]) \<and>
     (unreadCounts s' = unreadCounts s \<or>
      (\<exists>c. unreadCounts s' = (unreadCounts s)((c, uid) \<mapsto> 0)))"
    if "markMessageAsRead s now mid uid = (r, s')" for r s'
    using that
    by (auto simp: markMessageAsRead_def Let_def publish_def
        split: sum.splits bool.splits option.splits prod.splits if_splits
        dest!: store_write_cases resetUnreadCount_cases)
  then show ?thesis by (cases "markMessageAsRead s now mid uid") auto
qed

lemma receipts_unique_append:
  assumes "receipts_unique s" and "findOne_read s mid uid = None"
      and "messageReads s' = messageReads s @ [\<lparr>messageId = mid, userId = uid, readAt = now\<rparr>]"
  shows "receipts_unique s'"
proof -
  from assms(2) have "(mid, uid) \<notin> set (map (\<lambda>r. (messageId r, userId r)) (messageReads s))"
    by (auto simp: findOne_read_def find_None_iff)
  with assms(1,3) show ?thesis by (simp add: receipts_unique_def)
qed

lemma receipts_unique_filter:
  assumes "receipts_unique s" and "messageReads s' = filter P (messageReads s)"
  shows "receipts_unique s'"
  using assms by (simp add: receipts_unique_def distinct_map_filter)

lemma exec_receipts_unique:
  assumes "receipts_unique s"
  shows "receipts_unique (exec s cmd)"
proof -
  have same: "receipts_unique t" if "messageReads t = messageReads s" for t
    using assms that by (simp add: receipts_unique_def)
  show ?thesis
  proof (cases cmd)
    case (RemoveMessage cascade mid uid)
    with remove_frame [of s cascade mid uid] same receipts_unique_filter [OF assms]
    show ?thesis by auto
  next
    case (MarkMessageAsRead now mid uid)
    with markMessageAsRead_snd [of s now mid uid] same receipts_unique_append [OF assms]
    show ?thesis by auto
  qed (simp_all add: same chat_commands_frame create_frame update_frame)
qed

lemma reachable_receipts_unique: "reachable s \<Longrightarrow> receipts_unique s"
proof (induction rule: reachable.induct)
  case reach_init
  show ?case by (simp add: receipts_unique_def empty_sys_def)
next
  case (reach_exec s cmd)
  then show ?case by (simp add: exec_receipts_unique)
next
  case (reach_avail s b)
  then show ?case by (simp add: receipts_unique_def)
qed

lemma exec_counters_nonneg:
  assumes "counters_nonneg s"
  shows "counters_nonneg (exec s cmd)"
proof -
  have same: "counters_nonneg t" if "unreadCounts t = unreadCounts s" for t
    using assms that by (simp add: counters_nonneg_def)
  show ?thesis
  proof (cases cmd)
    case (CreateMessage now inp)
    with assms show ?thesis by (simp add: create_nonneg)
  next
    case (MarkMessageAsRead now mid uid)
    with markMessageAsRead_snd [of s now mid uid] assms same
    show ?thesis by (auto simp: counters_nonneg_def split: if_splits)
  next
    case (RemoveMessage cascade mid uid)
    with remove_frame [of s cascade mid uid] same show ?thesis by auto
  qed (simp_all add: same chat_commands_frame update_frame)
qed

lemma reachable_counters_nonneg: "reachable s \<Longrightarrow> counters_nonneg s"
proof (induction rule: reachable.induct)
  case reach_init
  show ?case by (simp add: counters_nonneg_def empty_sys_def)
next
  case (reach_exec s cmd)
  then show ?case by (simp add: exec_counters_nonneg)
next
  case (reach_avail s b)
  then show ?case by (simp add: counters_nonneg_def)
qed

subsection \<open>Counter values\<close>

text \<open>
  Claim C3. Every stored unread counter stays \<open>\<ge> 0\<close> under any sequence of
  \<open>incrementUnreadCount\<close> and \<open>resetUnreadCount\<close> operations and under every command
  of the system (so in every reachable state); and when the operations run
  one after the other on a store that is available and has no row for the key
  \<open>(cid, uid)\<close>, the value read for the key is the number of increments of that key
  performed strictly after its last reset (all of them if it was never reset). When the
  sequence is non-empty and only addresses that key, this is the stored row.
\<close>

theorem unread_counter_value:
  assumes "counters_nonneg s"
  shows "counters_nonneg (run_counter_ops s ops) \<and>
         counters_nonneg (exec s cmd) \<and>
         (failAfter s = None \<and> unreadCounts s (cid, uid) = None \<longrightarrow>
            getUnreadCount (run_counter_ops s ops) cid uid
              = int (increments_since_reset cid uid ops) \<and>
            (ops \<noteq> [] \<and> (\<forall>x \<in> set ops. x = Increment cid uid \<or> x = ResetToZero cid uid) \<longrightarrow>
               unreadCounts (run_counter_ops s ops) (cid, uid)
                 = Some (int (increments_since_reset cid uid ops))))"
proof (intro conjI impI)
  show "counters_nonneg (run_counter_ops s ops)"
    using assms by (rule run_counter_ops_nonneg)
next
  show "counters_nonneg (exec s cmd)"
    using assms by (rule exec_counters_nonneg)
next
  assume h: "failAfter s = None \<and> unreadCounts s (cid, uid) = None"
  then have row: "unreadCounts (run_counter_ops s ops) (cid, uid) =
      (if touched cid uid ops then Some (int (increments_since_reset cid uid ops)) else None)"
    using run_counter_ops_row [of s cid uid ops] by simp
  with untouched_no_increments [of cid uid ops] row show "getUnreadCount (run_counter_ops s ops) cid uid
      = int (increments_since_reset cid uid ops)"
    by (auto simp: getUnreadCount_def)
  assume "ops \<noteq> [] \<and> (\<forall>x \<in> set ops. x = Increment cid uid \<or> x = ResetToZero cid uid)"
  then have "touched cid uid ops"
    by (cases ops) (auto simp: touched_def)
  with row show "unreadCounts (run_counter_ops s ops) (cid, uid)
      = Some (int (increments_since_reset cid uid ops))" by simp
qed

text \<open>
  On the empty store: two increments, a reset, an increment of another key and one more
  increment leave the key of U2 at 1; the reset alone leaves the row at 0, the two
  increments alone at 2.
\<close>

theorem unread_counter_value_witness:
  "counters_nonneg empty_sys \<and>
   counters_nonneg (exec empty_sys (CreateChat chat_input_A)) \<and>
   counters_nonneg (run_counter_ops empty_sys
      [Increment 0 ''u2'', Increment 0 ''u2'', ResetToZero 0 ''u2'', Increment 0 ''u3'',
       Increment 0 ''u2'']) \<and>
   failAfter empty_sys = None \<and> unreadCounts empty_sys (0, ''u2'') = None \<and>
   getUnreadCount (run_counter_ops empty_sys
      [Increment 0 ''u2'', Increment 0 ''u2'', ResetToZero 0 ''u2'', Increment 0 ''u3'',
       Increment 0 ''u2'']) 0 ''u2'' = 1 \<and>
   unreadCounts (run_counter_ops empty_sys
      [Increment 0 ''u2'', Increment 0 ''u2'', ResetToZero 0 ''u2'']) (0, ''u2'') = Some 0 \<and>
   unreadCounts (run_counter_ops empty_sys
      [Increment 0 ''u2'', Increment 0 ''u2'']) (0, ''u2'') = Some 2"
proof -
  have nn: "counters_nonneg empty_sys" by (simp add: counters_nonneg_def empty_sys_def)
  have e: "failAfter empty_sys = None \<and> unreadCounts empty_sys (0, ''u2'') = None"
    by (simp add: empty_sys_def)
  show ?thesis
    using nn e
      unread_counter_value [OF nn, of "[Increment 0 ''u2'', Increment 0 ''u2'', ResetToZero 0 ''u2'', Increment 0 ''u3'',
       Increment 0 ''u2'']" "CreateChat chat_input_A" 0 "''u2''"]
      unread_counter_value [OF nn, of "[Increment 0 ''u2'', Increment 0 ''u2'', ResetToZero 0 ''u2'']"
         "CreateChat chat_input_A" 0 "''u2''"]
      unread_counter_value [OF nn, of "[Increment 0 ''u2'', Increment 0 ''u2'']"
         "CreateChat chat_input_A" 0 "''u2''"]
    by (simp add: increments_since_reset_def)
qed

subsection \<open>Marking a message as read\<close>

text \<open>What a successful \<open>markMessageAsRead\<close> went through.\<close>

lemma markMessageAsRead_Inr:
  assumes "markMessageAsRead s now mid uid = (Inr r, s1)"
  obtains m where
    "messages s mid = Some m"
    "isParticipant s (chatId m) uid = Inr True"
    "(findOne_read s mid uid = Some r \<and> s1 = s) \<or>
     (findOne_read s mid uid = None \<and> r = \<lparr>messageId = mid, userId = uid, readAt = now\<rparr> \<and>
      messageReads s1 = messageReads s @ [r] \<and> chats s1 = chats s \<and> messages s1 = messages s \<and>
      (published s1 = published s @ [MessageReadUpdated mid uid now] \<and>
         unreadCounts s1 = unreadCounts s \<or>
       0 < getUnreadCount s (chatId m) uid \<and>
       published s1 = published s @ [UnreadCountUpdated (chatId m) uid 0,
                                       MessageReadUpdated mid uid now] \<and>
         unreadCounts s1 = (unreadCounts s)((chatId m, uid) \<mapsto> 0)))"
proof -
  from assms obtain m where m: "messages s mid = Some m"
    by (cases "messages s mid") (simp_all add: markMessageAsRead_def findOne_message_def)
  then have fm: "findOne_message s mid = Inr m" by (simp add: findOne_message_def)
  from assms fm have p: "isParticipant s (chatId m) uid = Inr True"
    by (cases "isParticipant s (chatId m) uid")
       (auto simp: markMessageAsRead_def split: bool.splits)
  then obtain c where c: "findOne_chat s (chatId m) = Inr c"
    by (cases "findOne_chat s (chatId m)") (simp_all add: isParticipant_def)
  let ?new = "\<lparr>messageId = mid, userId = uid, readAt = now\<rparr>"
  have "(findOne_read s mid uid = Some r \<and> s1 = s) \<or>
     (findOne_read s mid uid = None \<and> r = ?new \<and>
      messageReads s1 = messageReads s @ [r] \<and> chats s1 = chats s \<and> messages s1 = messages s \<and>
      (published s1 = published s @ [MessageReadUpdated mid uid now] \<and>
         unreadCounts s1 = unreadCounts s \<or>
       0 < getUnreadCount s (chatId m) uid \<and>
       published s1 = published s @ [UnreadCountUpdated (chatId m) uid 0,
                                       MessageReadUpdated mid uid now] \<and>
         unreadCounts s1 = (unreadCounts s)((chatId m, uid) \<mapsto> 0)))"
  proof (cases "findOne_read s mid uid")
    case (Some ex)
    with assms fm p show ?thesis by (simp add: markMessageAsRead_def)
  next
    case None
    show ?thesis
    proof (cases "store_write s")
      case none: None
      with assms fm p None show ?thesis by (simp add: markMessageAsRead_def)
    next
      case (Some t)
      note sw = store_write_cases [OF Some]
      define s2 where "s2 = t\<lparr>messageReads := messageReads t @ [?new]\<rparr>"
      have c2: "findOne_chat s2 (chatId m) = Inr c"
        using c sw by (simp add: s2_def findOne_chat_def)
      have g2: "getUnreadCount s2 (chatId m) uid = getUnreadCount s (chatId m) uid"
        using sw by (simp add: s2_def getUnreadCount_def)
      have f2: "messageReads s2 = messageReads s @ [?new] \<and> chats s2 = chats s \<and>
                messages s2 = messages s \<and> published s2 = published s \<and>
                unreadCounts s2 = unreadCounts s"
        using sw by (simp add: s2_def)
      have mr: "markMessageAsRead s now mid uid =
          (case (if 0 < getUnreadCount s (chatId m) uid
                 then resetUnreadCount s2 (chatId m) uid else (Inr 0, s2)) of
             (Inl e, s3) \<Rightarrow> (Inl e, s3)
           | (Inr _, s3) \<Rightarrow> (Inr ?new, publish (MessageReadUpdated mid uid now) s3))"
        using fm p None Some c2 g2 unfolding markMessageAsRead_def Let_def s2_def
        by (auto split: prod.splits sum.splits)
      show ?thesis
      proof (cases "0 < getUnreadCount s (chatId m) uid")
        case False
        with mr assms have "r = ?new" and "s1 = publish (MessageReadUpdated mid uid now) s2"
          by simp_all
        with f2 None show ?thesis by (simp add: publish_def)
      next
        case True
        obtain r3 s3 where rs: "resetUnreadCount s2 (chatId m) uid = (r3, s3)"
          by (cases "resetUnreadCount s2 (chatId m) uid")
        from resetUnreadCount_cases [OF rs] show ?thesis
        proof
          assume "r3 = Inl StoreUnavailable \<and> s3 = s2"
          with mr True rs assms show ?thesis by simp
        next
          assume ok: "r3 = Inr 0 \<and> unreadCounts s3 = (unreadCounts s2)((chatId m, uid) \<mapsto> 0) \<and>
            published s3 = published s2 @ [UnreadCountUpdated (chatId m) uid 0] \<and>
            chats s3 = chats s2 \<and> messages s3 = messages s2 \<and>
            messageReads s3 = messageReads s2 \<and> nextId s3 = nextId s2"
          with mr True rs assms
          have "r = ?new" and "s1 = publish (MessageReadUpdated mid uid now) s3"
            by simp_all
          with ok f2 None True show ?thesis by (simp add: publish_def)
        qed
      qed
    qed
  qed
  with m p show ?thesis by (rule that)
qed

lemma find_unique_filter:
  "distinct (map f xs) \<Longrightarrow> find (\<lambda>x. f x = k) xs = Some r \<Longrightarrow> filter (\<lambda>x. f x = k) xs = [r]"
proof (induction xs)
  case Nil
  then show ?case by simp
next
  case (Cons x xs)
  show ?case
  proof (cases "f x = k")
    case True
    with Cons.prems have "r = x" and "k \<notin> f ` set xs" by auto
    then have "filter (\<lambda>x. f x = k) xs = []" by (auto simp: filter_empty_conv)
    with True \<open>r = x\<close> show ?thesis by simp
  next
    case False
    with Cons show ?thesis by simp
  qed
qed

lemma receipts_of_existing:
  assumes "receipts_unique s" and "findOne_read s mid uid = Some r"
  shows "receipts_of s mid uid = [r]"
proof -
  have eq: "(\<lambda>x. messageId x = mid \<and> userId x = uid) = (\<lambda>x. (messageId x, userId x) = (mid, uid))"
    by auto
  from assms show ?thesis
    unfolding receipts_unique_def findOne_read_def receipts_of_def eq
    by (rule find_unique_filter)
qed

lemma receipts_of_new:
  assumes "findOne_read s mid uid = None"
      and "messageReads s1 = messageReads s @ [\<lparr>messageId = mid, userId = uid, readAt = now\<rparr>]"
  shows "receipts_of s1 mid uid = [\<lparr>messageId = mid, userId = uid, readAt = now\<rparr>]"
    and "findOne_read s1 mid uid = Some \<lparr>messageId = mid, userId = uid, readAt = now\<rparr>"
proof -
  from assms(1) have none: "\<forall>x \<in> set (messageReads s). \<not> (messageId x = mid \<and> userId x = uid)"
    by (auto simp: findOne_read_def find_None_iff)
  then have "filter (\<lambda>x. messageId x = mid \<and> userId x = uid) (messageReads s) = []"
    by (simp add: filter_empty_conv)
  with assms(2) show "receipts_of s1 mid uid = [\<lparr>messageId = mid, userId = uid, readAt = now\<rparr>]"
    by (simp add: receipts_of_def)
  have "find P (xs @ [y]) = (case find P xs of None \<Rightarrow> (if P y then Some y else None) | Some z \<Rightarrow> Some z)"
    for P :: "message_read \<Rightarrow> bool" and xs y
    by (induction xs) auto
  with assms show "findOne_read s1 mid uid = Some \<lparr>messageId = mid, userId = uid, readAt = now\<rparr>"
    by (simp add: findOne_read_def)
qed

text \<open>
  Claim C2, amended. When \<open>markMessageAsRead\<close> has succeeded for a message and a user, a
  second call made in the state it left (at any later time) returns the same receipt
  without error and changes nothing: no row is added and nothing is published. If
  receipts were unique before (as in every reachable state), the pair has exactly one
  receipt afterwards, and the two calls together published at most one unread-counter
  update (the reset). In any later state \<open>t\<close> where the message exists, the user is
  still a participant of its active chat and a receipt of the pair is found, the call
  returns that receipt and leaves \<open>t\<close> as it is. In a state \<open>t2\<close> where the user is no
  longer a participant of the chat, the call is rejected with \<open>Forbidden\<close> and leaves
  \<open>t2\<close> as it is, whether or not a receipt exists: the participant check comes first.
\<close>

theorem markMessageAsRead_idempotent:
  assumes "markMessageAsRead s now mid uid = (Inr r, s1)"
      and "receipts_unique s"
  shows "markMessageAsRead s1 later mid uid = (Inr r, s1) \<and>
         receipts_of s1 mid uid = [r] \<and>
         receipts_unique s1 \<and>
         length (filter is_unread_update (published_since s s1)) \<le> 1 \<and>
         (messages t mid = Some m' \<and> isParticipant t (chatId m') uid = Inr True \<and>
          findOne_read t mid uid = Some r' \<longrightarrow>
            markMessageAsRead t later mid uid = (Inr r', t)) \<and>
         (messages t2 mid = Some m2 \<and> isParticipant t2 (chatId m2) uid = Inr False \<longrightarrow>
            markMessageAsRead t2 later mid uid = (Inl Forbidden, t2))"
proof -
  have again: "(messages t mid = Some m' \<and> isParticipant t (chatId m') uid = Inr True \<and>
      findOne_read t mid uid = Some r' \<longrightarrow> markMessageAsRead t later mid uid = (Inr r', t)) \<and>
     (messages t2 mid = Some m2 \<and> isParticipant t2 (chatId m2) uid = Inr False \<longrightarrow>
        markMessageAsRead t2 later mid uid = (Inl Forbidden, t2))"
    by (simp add: markMessageAsRead_def findOne_message_def)
  from assms(1) obtain m where m: "messages s mid = Some m"
    and p: "isParticipant s (chatId m) uid = Inr True"
    and d: "(findOne_read s mid uid = Some r \<and> s1 = s) \<or>
     (findOne_read s mid uid = None \<and> r = \<lparr>messageId = mid, userId = uid, readAt = now\<rparr> \<and>
      messageReads s1 = messageReads s @ [r] \<and> chats s1 = chats s \<and> messages s1 = messages s \<and>
      (published s1 = published s @ [MessageReadUpdated mid uid now] \<and>
         unreadCounts s1 = unreadCounts s \<or>
       0 < getUnreadCount s (chatId m) uid \<and>
       published s1 = published s @ [UnreadCountUpdated (chatId m) uid 0,
                                       MessageReadUpdated mid uid now] \<and>
         unreadCounts s1 = (unreadCounts s)((chatId m, uid) \<mapsto> 0)))"
    by (rule markMessageAsRead_Inr)
  from d show ?thesis
  proof
    assume a: "findOne_read s mid uid = Some r \<and> s1 = s"
    with m p have "markMessageAsRead s1 later mid uid = (Inr r, s1)"
      by (simp add: markMessageAsRead_def findOne_message_def)
    moreover from a assms(2) have "receipts_of s1 mid uid = [r]"
      by (simp add: receipts_of_existing)
    ultimately show ?thesis using a assms(2) again by (simp add: published_since_def)
  next
    assume b: "findOne_read s mid uid = None \<and> r = \<lparr>messageId = mid, userId = uid, readAt = now\<rparr> \<and>
      messageReads s1 = messageReads s @ [r] \<and> chats s1 = chats s \<and> messages s1 = messages s \<and>
      (published s1 = published s @ [MessageReadUpdated mid uid now] \<and>
         unreadCounts s1 = unreadCounts s \<or>
       0 < getUnreadCount s (chatId m) uid \<and>
       published s1 = published s @ [UnreadCountUpdated (chatId m) uid 0,
                                       MessageReadUpdated mid uid now] \<and>
         unreadCounts s1 = (unreadCounts s)((chatId m, uid) \<mapsto> 0))"
    then have n: "findOne_read s mid uid = None"
      and ms: "messageReads s1 = messageReads s @ [\<lparr>messageId = mid, userId = uid, readAt = now\<rparr>]"
      and r: "r = \<lparr>messageId = mid, userId = uid, readAt = now\<rparr>"
      by auto
    from b p have p1: "isParticipant s1 (chatId m) uid = Inr True"
      by (simp add: isParticipant_def findOne_chat_def)
    from b m have m1: "messages s1 mid = Some m" by simp
    from receipts_of_new [OF n ms] r
    have ro: "receipts_of s1 mid uid = [r]" and fo: "findOne_read s1 mid uid = Some r"
      by simp_all
    from m1 p1 fo have "markMessageAsRead s1 later mid uid = (Inr r, s1)"
      by (simp add: markMessageAsRead_def findOne_message_def)
    moreover have "receipts_unique s1"
      using receipts_unique_append [OF assms(2) n ms] .
    moreover from b have "length (filter is_unread_update (published_since s s1)) \<le> 1"
      by (auto simp: published_since_def is_unread_update_def)
    ultimately show ?thesis using ro again by simp
  qed
qed

lemma state_B_eval:
  "state_B = \<lparr>chats = [0 \<mapsto> \<lparr>chat_id = 0, chat_name = ''C'',
                     participantIds = [''U1'', ''U2'', ''U3''], isActive = True\<rparr>],
      messages = [1 \<mapsto> \<lparr>msg_id = Some 1, content = ''hi'', senderId = ''U1'', chatId = 0,
                     createdAt = 1, isEdited = False, editedAt = None\<rparr>],
      messageReads = [\<lparr>messageId = 1, userId = ''U2'', readAt = 2\<rparr>],
      unreadCounts = [(0, ''U3'') \<mapsto> 1, (0, ''U2'') \<mapsto> 0],
      published = published state_A @ [UnreadCountUpdated 0 ''U2'' 0, MessageReadUpdated 1 ''U2'' 2],
      nextId = 2, failAfter = None\<rparr>"
  by (simp add: state_B_def state_A_eval service_defs)

lemma state_C_eval:
  "state_C = \<lparr>chats = [0 \<mapsto> \<lparr>chat_id = 0, chat_name = ''C'',
                     participantIds = [''U1'', ''U2'', ''U3''], isActive = True\<rparr>],
      messages = [1 \<mapsto> \<lparr>msg_id = Some 1, content = ''hi'', senderId = ''U1'', chatId = 0,
                     createdAt = 1, isEdited = False, editedAt = None\<rparr>],
      messageReads = [\<lparr>messageId = 1, userId = ''U2'', readAt = 2\<rparr>,
                      \<lparr>messageId = 1, userId = ''U3'', readAt = 3\<rparr>],
      unreadCounts = [(0, ''U2'') \<mapsto> 0, (0, ''U3'') \<mapsto> 0],
      published = published state_B @ [UnreadCountUpdated 0 ''U3'' 0, MessageReadUpdated 1 ''U3'' 3],
      nextId = 2, failAfter = None\<rparr>"
  by (simp add: state_C_def state_B_eval service_defs)

lemma reachable_scenario:
  "reachable state_A0" "reachable state_A" "reachable state_B" "reachable state_C"
  unfolding state_A0_def state_A_def state_B_def state_C_def
  by (intro reachable.intros)+

text \<open>
  Claim C2, scenario B: U2 marks the message as read at time 2 (the counter of U2 is
  reset once); marking it again at time 9 returns the receipt of time 2 and leaves the
  state, also after U3 has read the message. Once U2 has been removed from the chat the
  call is rejected.
\<close>

theorem markMessageAsRead_idempotent_witness:
  "markMessageAsRead state_A 2 1 ''U2''
     = (Inr \<lparr>messageId = 1, userId = ''U2'', readAt = 2\<rparr>, state_B) \<and>
   receipts_unique state_A \<and>
   markMessageAsRead state_B 9 1 ''U2''
     = (Inr \<lparr>messageId = 1, userId = ''U2'', readAt = 2\<rparr>, state_B) \<and>
   receipts_of state_B 1 ''U2'' = [\<lparr>messageId = 1, userId = ''U2'', readAt = 2\<rparr>] \<and>
   published_since state_A state_B = [UnreadCountUpdated 0 ''U2'' 0, MessageReadUpdated 1 ''U2'' 2] \<and>
   findOne_read state_C 1 ''U2'' = Some \<lparr>messageId = 1, userId = ''U2'', readAt = 2\<rparr> \<and>
   markMessageAsRead state_C 9 1 ''U2''
     = (Inr \<lparr>messageId = 1, userId = ''U2'', readAt = 2\<rparr>, state_C) \<and>
   isParticipant state_R 0 ''U2'' = Inr False \<and>
   markMessageAsRead state_R 9 1 ''U2'' = (Inl Forbidden, state_R)"
proof -
  let ?m = "\<lparr>msg_id = Some 1, content = ''hi'', senderId = ''U1'', chatId = 0,
             createdAt = 1, isEdited = False, editedAt = None\<rparr>"
  have t: "messages state_C 1 = Some ?m \<and> isParticipant state_C (chatId ?m) ''U2'' = Inr True \<and>
           findOne_read state_C 1 ''U2'' = Some \<lparr>messageId = 1, userId = ''U2'', readAt = 2\<rparr>"
    by (simp add: state_C_eval isParticipant_def findOne_chat_def findOne_read_def)
  have first: "markMessageAsRead state_A 2 1 ''U2''
     = (Inr \<lparr>messageId = 1, userId = ''U2'', readAt = 2\<rparr>, state_B)"
    unfolding state_B_eval by (simp add: state_A_eval service_defs)
  have u: "receipts_unique state_A"
    by (simp add: receipts_unique_def state_A_eval)
  have p: "published_since state_A state_B
      = [UnreadCountUpdated 0 ''U2'' 0, MessageReadUpdated 1 ''U2'' 2]"
    by (simp add: published_since_def state_B_eval)
  have t2: "messages state_R 1 = Some ?m \<and> isParticipant state_R (chatId ?m) ''U2'' = Inr False"
    by (simp add: state_R_def state_B_eval service_defs)
  from markMessageAsRead_idempotent [OF first u, where later = 9 and t = state_C and m' = ?m
         and r' = "\<lparr>messageId = 1, userId = ''U2'', readAt = 2\<rparr>"
         and ?t2.0 = state_R and ?m2.0 = ?m] first u p t t2
  show ?thesis by simp
qed

text \<open>
  Claim C2 as stated fails: in \<open>state_R\<close> U2 holds the receipt of message 1 and has
  been removed from the chat; marking the message as read again for U2 does not return
  the receipt but throws \<open>Forbidden\<close>.
\<close>

theorem markMessageAsRead_after_removal_counterexample:
  "reachable state_R \<and>
   receipts_of state_R 1 ''U2'' = [\<lparr>messageId = 1, userId = ''U2'', readAt = 2\<rparr>] \<and>
   fst (markMessageAsRead state_R 9 1 ''U2'') = Inl Forbidden"
proof -
  have r: "reachable state_R"
    unfolding state_R_def by (intro reachable.intros reachable_scenario)
  have e: "receipts_of state_R 1 ''U2'' = [\<lparr>messageId = 1, userId = ''U2'', readAt = 2\<rparr>] \<and>
           fst (markMessageAsRead state_R 9 1 ''U2'') = Inl Forbidden"
    by (simp add: state_R_def state_B_eval receipts_of_def service_defs)
  from r e show ?thesis by simp
qed

section \<open>Read status\<close>

lemma readers_distinct:
  assumes "receipts_unique s"
  shows "distinct (map userId (filter (\<lambda>r. messageId r = mid) (messageReads s)))"
proof -
  let ?reads = "filter (\<lambda>r. messageId r = mid) (messageReads s)"
  from assms have "distinct (map (\<lambda>r. (messageId r, userId r)) ?reads)"
    by (simp add: receipts_unique_def distinct_map_filter)
  moreover have "map (\<lambda>r. (messageId r, userId r)) ?reads = map (Pair mid) (map userId ?reads)"
    by (induction "messageReads s") auto
  ultimately have "distinct (map (Pair mid) (map userId ?reads))" by (simp only:)
  then show ?thesis by (rule distinct_map [THEN iffD1, THEN conjunct1])
qed

lemma readers_set:
  "set (map userId (filter (\<lambda>r. messageId r = mid) (messageReads s))) = {u. has_receipt s mid u}"
  by (auto simp: has_receipt_def)

lemma getMessageReadStatus_Inr:
  assumes "getMessageReadStatus s mid = Inr st"
      and "messages s mid = Some m" and "chats s (chatId m) = Some c"
  shows "isFullyRead st =
           (length (filter (\<lambda>i. i \<noteq> senderId m) (participantIds c))
              \<le> length (filter (\<lambda>r. messageId r = mid) (messageReads s)))"
    and "totalParticipants st = length (filter (\<lambda>i. i \<noteq> senderId m) (participantIds c))"
    and "readByCount st = length (filter (\<lambda>r. messageId r = mid) (messageReads s))"
  using assms
  by (auto simp: getMessageReadStatus_def findOne_message_def findOne_chat_def Let_def
      split: if_splits)

text \<open>
  Claim C1, amended. In a reachable state, for a message whose chat lists no participant
  twice and whose receipts are all held by current participants other than the sender,
  the read-status query reports \<open>isFullyRead\<close> exactly when every participant other than
  the sender holds a receipt for the message: there the comparison
  \<open>readByCount \<ge> totalParticipants\<close> (the sender left out of the total) coincides with it.
\<close>

theorem isFullyRead_iff_all_others_read:
  assumes "reachable s"
      and "getMessageReadStatus s mid = Inr st"
      and "messages s mid = Some m" and "chats s (chatId m) = Some c"
      and "distinct (participantIds c)"
      and "\<forall>u. has_receipt s mid u \<longrightarrow> u \<in> set (participantIds c) \<and> u \<noteq> senderId m"
  shows "isFullyRead st = (\<forall>u \<in> set (participantIds c) - {senderId m}. has_receipt s mid u)"
proof -
  let ?others = "filter (\<lambda>i. i \<noteq> senderId m) (participantIds c)"
  let ?readers = "map userId (filter (\<lambda>r. messageId r = mid) (messageReads s))"
  have full: "isFullyRead st = (length ?others \<le> length ?readers)"
    using getMessageReadStatus_Inr(1) [OF assms(2-4)] by simp
  have dr: "distinct ?readers"
    using reachable_receipts_unique [OF assms(1)] by (rule readers_distinct)
  have do: "distinct ?others" using assms(5) by simp
  have so: "set ?others = set (participantIds c) - {senderId m}" by auto
  have sr: "set ?readers = {u. has_receipt s mid u}" by (rule readers_set)
  have sub: "set ?readers \<subseteq> set ?others"
    unfolding sr so using assms(6) by auto
  have lr: "length ?readers = card (set ?readers)"
    by (rule distinct_card [OF dr, symmetric])
  have lo: "length ?others = card (set ?others)"
    by (rule distinct_card [OF do, symmetric])
  have "(card (set ?others) \<le> card (set ?readers)) = (set ?others \<subseteq> set ?readers)"
  proof
    assume "card (set ?others) \<le> card (set ?readers)"
    with sub have "set ?readers = set ?others"
      by (intro card_seteq) simp_all
    then show "set ?others \<subseteq> set ?readers" by simp
  next
    assume "set ?others \<subseteq> set ?readers"
    then show "card (set ?others) \<le> card (set ?readers)"
      by (intro card_mono) simp_all
  qed
  then have "isFullyRead st = (set ?others \<subseteq> set ?readers)"
    unfolding full lr lo .
  also have "\<dots> = (\<forall>u \<in> set (participantIds c) - {senderId m}. has_receipt s mid u)"
    unfolding so sr by auto
  finally show ?thesis .
qed

text \<open>
  Scenarios B and C: after U2 has read, \<open>isFullyRead\<close> is false (U3 has not read); after
  U3 has read as well, it is true.
\<close>

theorem isFullyRead_iff_all_others_read_witness:
  "reachable state_B \<and> reachable state_C \<and>
   getMessageReadStatus state_B 1 =
     Inr \<lparr>rs_messageId = 1, totalParticipants = 2, readByCount = 1, isFullyRead = False,
           readByUsers = [(''U2'', 2)]\<rparr> \<and>
   getMessageReadStatus state_C 1 =
     Inr \<lparr>rs_messageId = 1, totalParticipants = 2, readByCount = 2, isFullyRead = True,
           readByUsers = [(''U2'', 2), (''U3'', 3)]\<rparr> \<and>
   has_receipt state_B 1 ''U2'' \<and> \<not> has_receipt state_B 1 ''U3'' \<and>
   has_receipt state_C 1 ''U2'' \<and> has_receipt state_C 1 ''U3''"
proof -
  let ?m = "\<lparr>msg_id = Some 1, content = ''hi'', senderId = ''U1'', chatId = 0,
             createdAt = 1, isEdited = False, editedAt = None\<rparr>"
  let ?c = "\<lparr>chat_id = 0, chat_name = ''C'', participantIds = [''U1'', ''U2'', ''U3''],
             isActive = True\<rparr>"
  let ?stB = "\<lparr>rs_messageId = 1, totalParticipants = 2, readByCount = 1, isFullyRead = False,
           readByUsers = [(''U2'', 2)]\<rparr>"
  let ?stC = "\<lparr>rs_messageId = 1, totalParticipants = 2, readByCount = 2, isFullyRead = True,
           readByUsers = [(''U2'', 2), (''U3'', 3)]\<rparr>"
  have qB: "getMessageReadStatus state_B 1 = Inr ?stB"
    by (simp add: state_B_eval service_defs)
  have qC: "getMessageReadStatus state_C 1 = Inr ?stC"
    by (simp add: state_C_eval service_defs)
  have mB: "messages state_B 1 = Some ?m" and cB: "chats state_B (chatId ?m) = Some ?c"
    by (simp_all add: state_B_eval)
  have mC: "messages state_C 1 = Some ?m" and cC: "chats state_C (chatId ?m) = Some ?c"
    by (simp_all add: state_C_eval)
  have d: "distinct (participantIds ?c)" by simp
  have hB: "\<forall>u. has_receipt state_B 1 u \<longrightarrow> u \<in> set (participantIds ?c) \<and> u \<noteq> senderId ?m"
    by (simp add: has_receipt_def state_B_eval)
  have hC: "\<forall>u. has_receipt state_C 1 u \<longrightarrow> u \<in> set (participantIds ?c) \<and> u \<noteq> senderId ?m"
    by (auto simp: has_receipt_def state_C_eval)
  from isFullyRead_iff_all_others_read [OF reachable_scenario(3) qB mB cB d hB]
       isFullyRead_iff_all_others_read [OF reachable_scenario(4) qC mC cC d hC]
       reachable_scenario(3,4) qB qC
  show ?thesis by (simp add: has_receipt_def state_B_eval)
qed

lemma state_D_eval:
  "state_D = \<lparr>chats = [0 \<mapsto> \<lparr>chat_id = 0, chat_name = ''D'',
                     participantIds = [''U1'', ''U2'', ''U2''], isActive = True\<rparr>],
      messages = [1 \<mapsto> \<lparr>msg_id = Some 1, content = ''hi'', senderId = ''U1'', chatId = 0,
                     createdAt = 1, isEdited = False, editedAt = None\<rparr>],
      messageReads = [],
      unreadCounts = [(0, ''U2'') \<mapsto> 2],
      published = [ChatAdded \<lparr>chat_id = 0, chat_name = ''D'',
                     participantIds = [''U1'', ''U2'', ''U2''], isActive = True\<rparr>,
                   MessageAdded \<lparr>msg_id = Some 1, content = ''hi'', senderId = ''U1'', chatId = 0,
                     createdAt = 1, isEdited = False, editedAt = None\<rparr>,
                   ChatMessageNotification 0 \<lparr>msg_id = Some 1, content = ''hi'', senderId = ''U1'',
                     chatId = 0, createdAt = 1, isEdited = False, editedAt = None\<rparr> ''U1'',
                   MessageUpdateForChatList 0 \<lparr>msg_id = Some 1, content = ''hi'', senderId = ''U1'',
                     chatId = 0, createdAt = 1, isEdited = False, editedAt = None\<rparr> ''U1'',
                   UnreadCountUpdated 0 ''U2'' 1, UnreadCountUpdated 0 ''U2'' 2],
      nextId = 2, failAfter = None\<rparr>"
  by (simp add: state_D_def state_D0_def chat_input_D_def msg_input_A_def service_defs)

text \<open>
  Claim C1 as stated fails in both directions. In \<open>state_R\<close> (U2 has read the message
  and has then been removed from the chat) the query reports \<open>isFullyRead\<close> although the
  participant U3 holds no receipt. In \<open>state_E\<close> (the participant list names U2 twice)
  the only participant other than the sender, U2, holds a receipt, yet the query reports
  that the message is not fully read.
\<close>

theorem isFullyRead_counterexample:
  "getMessageReadStatus state_R 1 =
     Inr \<lparr>rs_messageId = 1, totalParticipants = 1, readByCount = 1, isFullyRead = True,
           readByUsers = [(''U2'', 2)]\<rparr> \<and>
   chats state_R 0 = Some \<lparr>chat_id = 0, chat_name = ''C'', participantIds = [''U1'', ''U3''],
                            isActive = True\<rparr> \<and>
   \<not> has_receipt state_R 1 ''U3'' \<and>
   getMessageReadStatus state_E 1 =
     Inr \<lparr>rs_messageId = 1, totalParticipants = 2, readByCount = 1, isFullyRead = False,
           readByUsers = [(''U2'', 2)]\<rparr> \<and>
   chats state_E 0 = Some \<lparr>chat_id = 0, chat_name = ''D'',
                            participantIds = [''U1'', ''U2'', ''U2''], isActive = True\<rparr> \<and>
   has_receipt state_E 1 ''U2''"
proof -
  have R: "getMessageReadStatus state_R 1 =
     Inr \<lparr>rs_messageId = 1, totalParticipants = 1, readByCount = 1, isFullyRead = True,
           readByUsers = [(''U2'', 2)]\<rparr> \<and>
   chats state_R 0 = Some \<lparr>chat_id = 0, chat_name = ''C'', participantIds = [''U1'', ''U3''],
                            isActive = True\<rparr> \<and>
   \<not> has_receipt state_R 1 ''U3''"
    by (simp add: state_R_def state_B_eval has_receipt_def service_defs)
  have E: "getMessageReadStatus state_E 1 =
     Inr \<lparr>rs_messageId = 1, totalParticipants = 2, readByCount = 1, isFullyRead = False,
           readByUsers = [(''U2'', 2)]\<rparr> \<and>
   chats state_E 0 = Some \<lparr>chat_id = 0, chat_name = ''D'',
                            participantIds = [''U1'', ''U2'', ''U2''], isActive = True\<rparr> \<and>
   has_receipt state_E 1 ''U2''"
    by (simp add: state_E_def state_D_eval has_receipt_def service_defs)
  from R E show ?thesis by simp
qed

text \<open>
  Claim C6, the failing input: U1 is the sender of message 1 and a participant of its
  chat, so \<open>markMessageAsRead\<close> stores a receipt of U1 for the own message; with the
  receipt of U2, the message then counts as fully read although U3 has not read it.
\<close>

theorem sender_receipt_stored:
  "reachable state_S \<and>
   messages state_A 1 = Some \<lparr>msg_id = Some 1, content = ''hi'', senderId = ''U1'', chatId = 0,
                                createdAt = 1, isEdited = False, editedAt = None\<rparr> \<and>
   fst (markMessageAsRead state_A 2 1 ''U1'') = Inr \<lparr>messageId = 1, userId = ''U1'', readAt = 2\<rparr> \<and>
   has_receipt state_S 1 ''U1'' \<and>
   receipts_unique state_S \<and>
   getMessageReadStatus (exec state_S (MarkMessageAsRead 3 1 ''U2'')) 1 =
     Inr \<lparr>rs_messageId = 1, totalParticipants = 2, readByCount = 2, isFullyRead = True,
           readByUsers = [(''U1'', 2), (''U2'', 3)]\<rparr> \<and>
   \<not> has_receipt (exec state_S (MarkMessageAsRead 3 1 ''U2'')) 1 ''U3''"
proof -
  have r: "reachable state_S"
    unfolding state_S_def by (intro reachable.intros reachable_scenario)
  have e: "messages state_A 1 = Some \<lparr>msg_id = Some 1, content = ''hi'', senderId = ''U1'', chatId = 0,
                                createdAt = 1, isEdited = False, editedAt = None\<rparr> \<and>
   fst (markMessageAsRead state_A 2 1 ''U1'') = Inr \<lparr>messageId = 1, userId = ''U1'', readAt = 2\<rparr> \<and>
   has_receipt state_S 1 ''U1'' \<and>
   getMessageReadStatus (exec state_S (MarkMessageAsRead 3 1 ''U2'')) 1 =
     Inr \<lparr>rs_messageId = 1, totalParticipants = 2, readByCount = 2, isFullyRead = True,
           readByUsers = [(''U1'', 2), (''U2'', 3)]\<rparr> \<and>
   \<not> has_receipt (exec state_S (MarkMessageAsRead 3 1 ''U2'')) 1 ''U3''"
    by (simp add: state_S_def state_A_eval has_receipt_def service_defs)
  from r e reachable_receipts_unique [OF r] show ?thesis by simp
qed

section \<open>Interleaving of counter operations\<close>

lemma sched_serial_pair:
  "foldl (sched_exec cid uid) (s, regs) [Find i, Save i k]
     = (apply_counter_op s (as_counter_op cid uid k), regs(i := None))"
  by (cases k)
     (simp_all add: as_counter_op_def incrementUnreadCount_def resetUnreadCount_def Let_def)

lemma sched_serial:
  "fst (foldl (sched_exec cid uid) (s, regs) (serial ops))
     = run_counter_ops s (map (\<lambda>(i, k). as_counter_op cid uid k) ops)"
proof (induction ops arbitrary: s regs)
  case Nil
  show ?case by (simp add: serial_def run_counter_ops_def)
next
  case (Cons x xs)
  obtain i k where x: "x = (i, k)" by (cases x)
  have "foldl (sched_exec cid uid) (s, regs) (serial (x # xs))
      = foldl (sched_exec cid uid)
          (foldl (sched_exec cid uid) (s, regs) [Find i, Save i k]) (serial xs)"
    by (simp add: serial_def x)
  also have "\<dots> = foldl (sched_exec cid uid)
          (apply_counter_op s (as_counter_op cid uid k), regs(i := None)) (serial xs)"
    by (simp only: sched_serial_pair)
  finally have "fst (foldl (sched_exec cid uid) (s, regs) (serial (x # xs)))
      = fst (foldl (sched_exec cid uid)
          (apply_counter_op s (as_counter_op cid uid k), regs(i := None)) (serial xs))"
    by (simp only:)
  also have "\<dots> = run_counter_ops (apply_counter_op s (as_counter_op cid uid k))
                     (map (\<lambda>(i, k). as_counter_op cid uid k) xs)"
    by (rule Cons.IH)
  also have "\<dots> = run_counter_ops s (map (\<lambda>(i, k). as_counter_op cid uid k) (x # xs))"
    by (simp add: run_counter_ops_def x)
  finally show ?case .
qed

text \<open>
  On a key without a row, two interleaved increments both read nothing; the first INSERT
  stores 1 and the second is rejected, so the second operation throws and publishes
  nothing.
\<close>

lemma interleaved_inserts:
  "unreadCounts state_A0 (0, ''U2'') = None \<and>
   unreadCounts (run_schedule 0 ''U2'' state_A0 [Find 0, Find 1, Save 0 Inc, Save 1 Inc])
     (0, ''U2'') = Some 1 \<and>
   published_since state_A0
     (run_schedule 0 ''U2'' state_A0 [Find 0, Find 1, Save 0 Inc, Save 1 Inc])
     = [UnreadCountUpdated 0 ''U2'' 1] \<and>
   fst (save_unread (run_schedule 0 ''U2'' state_A0 [Find 0, Find 1, Save 0 Inc]) 0 ''U2'' None 1)
     = Inl QueryFailed"
  by (simp add: run_schedule_def published_since_def state_A0_eval service_defs)

text \<open>
  Claim C8, amended. The counter operations are a \<open>findOne\<close> followed by a \<open>save\<close> of a
  value computed from what was found, with no lock, upsert or compare-and-swap. When the
  steps of the operations on a key do not interleave (each read is followed at once by its
  write), the result is that of running the operations one after the other, and no update
  is lost: on an available store without a row for the key, the key then reads as the
  number of increments since the last reset.
\<close>

theorem serial_schedule_loses_no_update:
  "run_schedule cid uid s (serial ops)
     = run_counter_ops s (map (\<lambda>(i, k). as_counter_op cid uid k) ops) \<and>
   (failAfter s = None \<and> unreadCounts s (cid, uid) = None \<longrightarrow>
      getUnreadCount (run_schedule cid uid s (serial ops)) cid uid
        = int (increments_since_reset cid uid (map (\<lambda>(i, k). as_counter_op cid uid k) ops)))"
proof -
  let ?cs = "map (\<lambda>(i, k). as_counter_op cid uid k) ops"
  have eq: "run_schedule cid uid s (serial ops) = run_counter_ops s ?cs"
    by (simp add: run_schedule_def sched_serial)
  have "getUnreadCount (run_counter_ops s ?cs) cid uid = int (increments_since_reset cid uid ?cs)"
    if "failAfter s = None" "unreadCounts s (cid, uid) = None"
    using run_counter_ops_row [OF that, of ?cs] untouched_no_increments [of cid uid ?cs]
    by (auto simp: getUnreadCount_def)
  with eq show ?thesis by simp
qed

text \<open>
  Two increments of the key of U2, one after the other, on the state without a row for
  the key: the schedule stores 2.
\<close>

theorem serial_schedule_loses_no_update_witness:
  "failAfter state_A0 = None \<and> unreadCounts state_A0 (0, ''U2'') = None \<and>
   run_schedule 0 ''U2'' state_A0 [Find 0, Save 0 Inc, Find 1, Save 1 Inc]
     = run_counter_ops state_A0 [Increment 0 ''U2'', Increment 0 ''U2''] \<and>
   getUnreadCount (run_schedule 0 ''U2'' state_A0 [Find 0, Save 0 Inc, Find 1, Save 1 Inc]) 0 ''U2'' = 2"
proof -
  have h: "failAfter state_A0 = None \<and> unreadCounts state_A0 (0, ''U2'') = None"
    by (simp add: state_A0_eval)
  from serial_schedule_loses_no_update [of 0 "''U2''" state_A0 "[(0, Inc), (1, Inc)]"] h
  show ?thesis
    by (simp add: serial_def as_counter_op_def increments_since_reset_def run_counter_ops_def
        state_A0_eval service_defs)
qed

text \<open>
  Claim C8 as stated fails: two increments of the key of U2 whose reads both happen
  before either write store 2 on top of the stored 1, where the two increments run one
  after the other store 3; one update is lost.
\<close>

theorem interleaved_increments_counterexample:
  "getUnreadCount state_A 0 ''U2'' = 1 \<and>
   getUnreadCount (run_schedule 0 ''U2'' state_A [Find 0, Find 1, Save 0 Inc, Save 1 Inc]) 0 ''U2'' = 2 \<and>
   getUnreadCount (run_counter_ops state_A [Increment 0 ''U2'', Increment 0 ''U2'']) 0 ''U2'' = 3"
  by (simp add: run_schedule_def run_counter_ops_def state_A_eval service_defs)

section \<open>Notifications\<close>

lemma increment_each_published:
  "\<exists>evs. published (snd (increment_each s cid us)) = published s @ evs"
proof (induction us arbitrary: s)
  case Nil
  show ?case by simp
next
  case (Cons p rest)
  obtain r s1 where step: "incrementUnreadCount s cid p = (r, s1)"
    by (cases "incrementUnreadCount s cid p")
  from incrementUnreadCount_cases [OF step]
  obtain e1 where e1: "published s1 = published s @ e1" by auto
  show ?case
  proof (cases r)
    case (Inl e)
    with step e1 show ?thesis by simp
  next
    case (Inr v)
    from Cons.IH [of s1] obtain evs where
      "published (snd (increment_each s1 cid rest)) = published s1 @ evs" by blast
    with Inr step e1 show ?thesis by simp
  qed
qed

text \<open>
  Claim C10. A successful \<open>create\<close> publishes a \<open>chatMessageNotification\<close> and a
  \<open>messageUpdateForChatList\<close> event carrying the sender of the message. The Reader forwards
  each of them to a subscriber of the topic exactly when the subscriber's user id differs
  from that sender; whether the subscriber is a participant of the chat plays no part.
\<close>

theorem notification_forwarded_unless_sender:
  assumes "create s now inp = (Inr m, s')"
  shows "ChatMessageNotification (in_chatId inp) m (in_senderId inp) \<in> set (published_since s s') \<and>
         MessageUpdateForChatList (in_chatId inp) m (in_senderId inp) \<in> set (published_since s s') \<and>
         (u \<in> set (forward_to ''chatMessageNotification'' chatMessageNotification_filter subscribers
                     (ChatMessageNotification (in_chatId inp) m (in_senderId inp))))
           = (u \<in> set subscribers \<and> in_senderId inp \<noteq> u) \<and>
         (u \<in> set (forward_to ''messageUpdateForChatList'' messageUpdateForChatList_filter subscribers
                     (MessageUpdateForChatList (in_chatId inp) m (in_senderId inp))))
           = (u \<in> set subscribers \<and> in_senderId inp \<noteq> u)"
  using assms
proof (rule create_Inr)
  fix c s5
  assume p5: "published s5 = published s @ [MessageAdded m,
        ChatMessageNotification (in_chatId inp) m (in_senderId inp),
        MessageUpdateForChatList (in_chatId inp) m (in_senderId inp)]"
    and inc: "increment_each s5 (in_chatId inp)
       (filter (\<lambda>i. i \<noteq> in_senderId inp) (participantIds c)) = (Inr (), s')"
  from increment_each_published [of s5 "in_chatId inp"
      "filter (\<lambda>i. i \<noteq> in_senderId inp) (participantIds c)"] inc
  obtain evs where "published s' = published s5 @ evs" by auto
  with p5 have "published_since s s' = [MessageAdded m,
        ChatMessageNotification (in_chatId inp) m (in_senderId inp),
        MessageUpdateForChatList (in_chatId inp) m (in_senderId inp)] @ evs"
    by (simp add: published_since_def)
  then show ?thesis
    by (auto simp: forward_to_def chatMessageNotification_filter_def
        messageUpdateForChatList_filter_def)
qed

text \<open>
  Scenario A with the subscribers U1, U2 and U9: U9 is not a participant of the chat and
  receives both notifications; the sender U1 receives neither.
\<close>

theorem notification_forwarded_unless_sender_witness:
  "create state_A0 1 msg_input_A =
     (Inr \<lparr>msg_id = Some 1, content = ''hi'', senderId = ''U1'', chatId = 0,
            createdAt = 1, isEdited = False, editedAt = None\<rparr>, state_A) \<and>
   isParticipant state_A 0 ''U9'' = Inr False \<and>
   ''U9'' \<in> set (forward_to ''chatMessageNotification'' chatMessageNotification_filter
                  [''U1'', ''U2'', ''U9'']
                  (ChatMessageNotification 0 \<lparr>msg_id = Some 1, content = ''hi'', senderId = ''U1'',
                     chatId = 0, createdAt = 1, isEdited = False, editedAt = None\<rparr> ''U1'')) \<and>
   ''U9'' \<in> set (forward_to ''messageUpdateForChatList'' messageUpdateForChatList_filter
                  [''U1'', ''U2'', ''U9'']
                  (MessageUpdateForChatList 0 \<lparr>msg_id = Some 1, content = ''hi'', senderId = ''U1'',
                     chatId = 0, createdAt = 1, isEdited = False, editedAt = None\<rparr> ''U1'')) \<and>
   ''U1'' \<notin> set (forward_to ''chatMessageNotification'' chatMessageNotification_filter
                  [''U1'', ''U2'', ''U9'']
                  (ChatMessageNotification 0 \<lparr>msg_id = Some 1, content = ''hi'', senderId = ''U1'',
                     chatId = 0, createdAt = 1, isEdited = False, editedAt = None\<rparr> ''U1''))"
proof -
  have np: "isParticipant state_A 0 ''U9'' = Inr False"
    by (simp add: state_A_eval isParticipant_def findOne_chat_def)
  from notification_forwarded_unless_sender [OF create_A, of "''U9''" "[''U1'', ''U2'', ''U9'']"]
       notification_forwarded_unless_sender [OF create_A, of "''U1''" "[''U1'', ''U2'', ''U9'']"]
       create_A np
  show ?thesis by (simp add: msg_input_A_def)
qed

section \<open>Participants of a chat\<close>













lemma chats_wf_upd:
  "chats_wf s \<Longrightarrow> chats s k = Some c' \<Longrightarrow> chat_id c'' = chat_id c' \<Longrightarrow>
   chats t = (chats s)(k \<mapsto> c'') \<Longrightarrow> nextId s \<le> nextId t \<Longrightarrow> chats_wf t"
  by (fastforce simp: chats_wf_def split: if_splits)








end
